theory Spec2Isabelle
  imports Complex_Main "HOL-Library.Multiset" "HOL-Library.Word" "HOL-Library.Char_ord"
    "HOL-Library.List_Lexorder"
begin

section \<open>Strings and the entity model (types.ts)\<close>

text \<open>
  A JavaScript string is a sequence of UTF-16 code units and \<^verbatim>\<open>.length\<close> counts them.
  The model writes a string as a \<^typ>\<open>string\<close> with one \<^typ>\<open>char\<close> per code unit (the
  code units below 256), so \<^const>\<open>length\<close> is \<^verbatim>\<open>.length\<close> and \<^term>\<open>[]\<close> is the empty
  string, the only string that is falsy.

  The records keep the fields the statistics code reads. The TypeScript interfaces
  declare \<^verbatim>\<open>ChatMessage.text\<close> and \<^verbatim>\<open>ChatMessage.content\<close> as required, but the data is
  parsed JSON and the code reads both defensively (\<^verbatim>\<open>m.text?.length\<close>,
  \<^verbatim>\<open>msg.content ?? []\<close>), so both are optional here, as \<^verbatim>\<open>ContentItem.name\<close> is in the
  interface itself.
\<close>

record User =
  u_uuid :: string
  full_name :: string
  email_address :: string
  verified_phone_number :: string

record ContentItem =
  c_type :: string
  c_text :: "string option"
  c_name :: "string option"

record ChatMessage =
  m_uuid :: string
  m_text :: "string option"
  sender :: string
  m_created_at :: string
  m_updated_at :: string
  content :: "ContentItem list option"

record Conversation =
  conv_uuid :: string
  conv_name :: string
  summary :: string
  created_at :: string
  updated_at :: string
  account_uuid :: string
  chat_messages :: "ChatMessage list"

section \<open>Plain objects used as counting tables\<close>

text \<open>
  \<^verbatim>\<open>const toolUses: Record<string, number> = {}\<close> is an ordinary object: its own
  properties are kept in creation order, and a read of a key it does not own falls
  through to \<^verbatim>\<open>Object.prototype\<close>. An object is modelled by the association list of
  its own properties in creation order; \<open>Object_prototype_keys\<close> lists the property
  names every plain object inherits.
\<close>

type_synonym 'v js_object = "(string \<times> 'v) list"

definition Object_prototype_keys :: "string list" where
  "Object_prototype_keys =
     [''constructor'', ''__defineGetter__'', ''__defineSetter__'', ''hasOwnProperty'',
      ''__lookupGetter__'', ''__lookupSetter__'', ''isPrototypeOf'',
      ''propertyIsEnumerable'', ''toString'', ''valueOf'', ''__proto__'',
      ''toLocaleString'']"

text \<open>\<^verbatim>\<open>obj[k] = v\<close> on a key other than \<^verbatim>\<open>__proto__\<close>: an own property keeps its place,
  a new one goes last.\<close>

fun put :: "string \<Rightarrow> 'v \<Rightarrow> 'v js_object \<Rightarrow> 'v js_object" where
  "put k v [] = [(k, v)]"
| "put k v (p # ps) = (if fst p = k then (k, v) # ps else p # put k v ps)"

text \<open>
  The value stored under a tool name. \<open>Count n\<close> is the number \<open>n\<close>. When the name is an
  inherited property (\<^verbatim>\<open>constructor\<close>, \<^verbatim>\<open>toString\<close>, ...) the read
  \<^verbatim>\<open>toolUses[c.name]\<close> yields the inherited function, which is truthy, and
  \<^verbatim>\<open>+ 1\<close> concatenates: \<open>Text p j\<close> is the string \<^verbatim>\<open>String(Object.prototype[p])\<close>
  followed by \<open>j\<close> characters \<^verbatim>\<open>1\<close>.
\<close>

datatype tally = Count nat | Text string nat

text \<open>\<^verbatim>\<open>toolUses[c.name] = (toolUses[c.name] || 0) + 1\<close>. The assignment to
  \<^verbatim>\<open>__proto__\<close> runs the inherited setter, which ignores a string.\<close>

definition increment :: "tally js_object \<Rightarrow> string \<Rightarrow> tally js_object" where
  "increment obj k =
     (case map_of obj k of
        Some (Count n) \<Rightarrow> put k (Count (n + 1)) obj
      | Some (Text p j) \<Rightarrow> put k (Text p (j + 1)) obj
      | None \<Rightarrow>
          if k = ''__proto__'' then obj
          else if k \<in> set Object_prototype_keys then put k (Text k 1) obj
          else put k (Count 1) obj)"

section \<open>Array.prototype.sort\<close>

text \<open>
  \<^verbatim>\<open>sort\<close> with a comparator is stable (ECMAScript 2019); a comparator result of
  \<^verbatim>\<open>NaN\<close> (\<open>None\<close>) counts as \<open>0\<close>. The model is the stable insertion sort. For a
  consistent comparator the language fixes the result and the model gives it. For an
  inconsistent one (a comparator that returns \<^verbatim>\<open>NaN\<close> for some pairs is one) the order
  is implementation-defined: an engine may return another permutation than the model
  does, and the laws below state an order only for comparators that are consistent
  on the elements sorted; for the others they state what holds of every permutation.
\<close>

definition keeps_before :: "('a \<Rightarrow> 'a \<Rightarrow> int option) \<Rightarrow> 'a \<Rightarrow> 'a \<Rightarrow> bool" where
  "keeps_before cmp x y = (case cmp x y of None \<Rightarrow> True | Some v \<Rightarrow> v \<le> 0)"

fun insert_by :: "('a \<Rightarrow> 'a \<Rightarrow> int option) \<Rightarrow> 'a \<Rightarrow> 'a list \<Rightarrow> 'a list" where
  "insert_by cmp x [] = [x]"
| "insert_by cmp x (y # ys) =
     (if keeps_before cmp x y then x # y # ys else y # insert_by cmp x ys)"

definition Array_sort :: "('a \<Rightarrow> 'a \<Rightarrow> int option) \<Rightarrow> 'a list \<Rightarrow> 'a list" where
  "Array_sort cmp xs = foldr (insert_by cmp) xs []"

section \<open>calculateStats\<close>

record UserStats =
  user :: User
  conversationCount :: nat
  messageCount :: nat
  humanMessages :: nat
  assistantMessages :: nat
  totalHumanChars :: nat
  totalAssistantChars :: nat
  avgPromptLength :: nat
  avgResponseLength :: nat
  thinkingBlocks :: nat
  toolUses :: "tally js_object"
  lastActive :: string

text \<open>\<^verbatim>\<open>msg.content ?? []\<close> and \<^verbatim>\<open>m.text?.length || 0\<close>.\<close>

definition contentOf :: "ChatMessage \<Rightarrow> ContentItem list" where
  "contentOf msg = (case content msg of None \<Rightarrow> [] | Some cs \<Rightarrow> cs)"

definition textLength :: "ChatMessage \<Rightarrow> nat" where
  "textLength m = (case m_text m of None \<Rightarrow> 0 | Some t \<Rightarrow> length t)"

definition sumChars :: "ChatMessage list \<Rightarrow> nat" where
  "sumChars ms = foldl (\<lambda>sum m. sum + textLength m) 0 ms"

text \<open>\<^verbatim>\<open>if (c.type === "tool_use" && c.name) toolUses[c.name] = ...\<close>\<close>

definition tallyItem :: "tally js_object \<Rightarrow> ContentItem \<Rightarrow> tally js_object" where
  "tallyItem tools c =
     (case c_name c of
        None \<Rightarrow> tools
      | Some n \<Rightarrow> if c_type c = ''tool_use'' \<and> n \<noteq> [] then increment tools n else tools)"

text \<open>The body of the inner loop over content blocks, on the pair
  (\<^verbatim>\<open>thinkingBlocks\<close>, \<^verbatim>\<open>toolUses\<close>), and the two nested loops.\<close>

definition scanItem :: "nat \<times> tally js_object \<Rightarrow> ContentItem \<Rightarrow> nat \<times> tally js_object" where
  "scanItem acc c =
     ((if c_type c = ''thinking'' then fst acc + 1 else fst acc), tallyItem (snd acc) c)"

definition scanMessages :: "ChatMessage list \<Rightarrow> nat \<times> tally js_object" where
  "scanMessages msgs = foldl (\<lambda>acc msg. foldl scanItem acc (contentOf msg)) (0, []) msgs"

text \<open>
  \<^verbatim>\<open>Math.round(a / b)\<close> for counts \<open>a\<close> and \<open>b > 0\<close>: the nearest integer, a half
  rounded up. The quotient of the source is a double; it rounds to the same integer as
  the exact quotient as long as \<open>a < 2^52\<close> code units, which every string total in
  memory satisfies.
\<close>

definition Math_round_div :: "nat \<Rightarrow> nat \<Rightarrow> nat" where
  "Math_round_div a b = (2 * a + b) div (2 * b)"

text \<open>
  \<^verbatim>\<open>new Date(s).getTime()\<close> is the platform's date parser; the model takes it as the
  parameter \<open>getTime\<close>, \<open>None\<close> for \<^verbatim>\<open>NaN\<close> (an invalid date). A comparison with
  \<^verbatim>\<open>NaN\<close> is false.
\<close>

definition later :: "(string \<Rightarrow> int option) \<Rightarrow> Conversation \<Rightarrow> Conversation \<Rightarrow> Conversation" where
  "later getTime latest c =
     (case (getTime (updated_at c), getTime (updated_at latest)) of
        (Some a, Some b) \<Rightarrow> if a > b then c else latest
      | _ \<Rightarrow> latest)"

definition lastActiveOf :: "(string \<Rightarrow> int option) \<Rightarrow> Conversation list \<Rightarrow> string" where
  "lastActiveOf getTime userConvs =
     (case userConvs of [] \<Rightarrow> [] | c # cs \<Rightarrow> updated_at (foldl (later getTime) c cs))"

text \<open>The function mapped over \<^verbatim>\<open>users\<close>.\<close>

definition userStats :: "(string \<Rightarrow> int option) \<Rightarrow> Conversation list \<Rightarrow> User \<Rightarrow> UserStats" where
  "userStats getTime conversations usr =
     (let userConvs = filter (\<lambda>c. account_uuid c = u_uuid usr) conversations;
          allMessages = concat (map chat_messages userConvs);
          humanMsgs = filter (\<lambda>m. sender m = ''human'') allMessages;
          assistantMsgs = filter (\<lambda>m. sender m = ''assistant'') allMessages;
          scanned = scanMessages allMessages
      in \<lparr> user = usr,
           conversationCount = length userConvs,
           messageCount = length allMessages,
           humanMessages = length humanMsgs,
           assistantMessages = length assistantMsgs,
           totalHumanChars = sumChars humanMsgs,
           totalAssistantChars = sumChars assistantMsgs,
           avgPromptLength =
             (if length humanMsgs > 0
              then Math_round_div (sumChars humanMsgs) (length humanMsgs) else 0),
           avgResponseLength =
             (if length assistantMsgs > 0
              then Math_round_div (sumChars assistantMsgs) (length assistantMsgs) else 0),
           thinkingBlocks = fst scanned,
           toolUses = snd scanned,
           lastActive = lastActiveOf getTime userConvs \<rparr>)"

definition byConversationCount :: "UserStats \<Rightarrow> UserStats \<Rightarrow> int option" where
  "byConversationCount a b = Some (int (conversationCount b) - int (conversationCount a))"

definition calculateStats ::
  "(string \<Rightarrow> int option) \<Rightarrow> User list \<Rightarrow> Conversation list \<Rightarrow> UserStats list" where
  "calculateStats getTime users conversations =
     Array_sort byConversationCount (map (userStats getTime conversations) users)"

section \<open>Object.entries\<close>

text \<open>
  \<^verbatim>\<open>Object.entries\<close> lists the own properties: first the keys that are array indices
  (canonical decimal numerals below \<open>2^32 - 1\<close>) in ascending numeric order, then the
  other keys in creation order.
\<close>

definition is_digit :: "char \<Rightarrow> bool" where
  "is_digit c = (48 \<le> (of_char c :: nat) \<and> (of_char c :: nat) \<le> 57)"

definition dec_value :: "string \<Rightarrow> nat" where
  "dec_value k = foldl (\<lambda>n c. 10 * n + (of_char c - 48)) 0 k"

definition is_array_index :: "string \<Rightarrow> bool" where
  "is_array_index k =
     (k \<noteq> [] \<and> list_all is_digit k \<and> (k = ''0'' \<or> take 1 k \<noteq> ''0'')
      \<and> dec_value k < 2 ^ 32 - 1)"

definition Object_entries :: "'v js_object \<Rightarrow> (string \<times> 'v) list" where
  "Object_entries obj =
     sort_key (\<lambda>p. dec_value (fst p)) (filter (\<lambda>p. is_array_index (fst p)) obj)
     @ filter (\<lambda>p. \<not> is_array_index (fst p)) obj"

section \<open>calculateDailyActivity\<close>

record DayTotals =
  d_conversations :: nat
  d_messages :: nat

record DailyActivity =
  da_date :: string
  da_conversations :: nat
  da_messages :: nat

text \<open>
  The loop body. \<^verbatim>\<open>conv.created_at.slice(0, 10)\<close> is \<open>take 10\<close>. When \<^verbatim>\<open>day\<close> is the
  name of an inherited property, \<^verbatim>\<open>dayMap[day]\<close> is the inherited value, which is truthy:
  no own entry is created and the two updates land on the inherited value, not on
  \<^verbatim>\<open>dayMap\<close> (they set properties whose value is \<^verbatim>\<open>NaN\<close>, which is falsy, so no later
  read of a table is changed by them).
\<close>

definition dayStep :: "DayTotals js_object \<Rightarrow> Conversation \<Rightarrow> DayTotals js_object" where
  "dayStep dayMap conv =
     (let day = take 10 (created_at conv) in
      case map_of dayMap day of
        Some d \<Rightarrow>
          put day \<lparr> d_conversations = d_conversations d + 1,
                    d_messages = d_messages d + length (chat_messages conv) \<rparr> dayMap
      | None \<Rightarrow>
          if day \<in> set Object_prototype_keys then dayMap
          else put day \<lparr> d_conversations = 1,
                         d_messages = length (chat_messages conv) \<rparr> dayMap)"

text \<open>
  \<^verbatim>\<open>a.localeCompare(b)\<close> is the platform's locale-sensitive comparison; the model takes
  it as the parameter \<open>localeCompare\<close>.
\<close>

definition calculateDailyActivity ::
  "(string \<Rightarrow> string \<Rightarrow> int) \<Rightarrow> Conversation list \<Rightarrow> DailyActivity list" where
  "calculateDailyActivity localeCompare conversations =
     map (\<lambda>p. \<lparr> da_date = fst p, da_conversations = d_conversations (snd p),
                 da_messages = d_messages (snd p) \<rparr>)
       (Array_sort (\<lambda>a b. Some (localeCompare (fst a) (fst b)))
          (Object_entries (foldl dayStep [] conversations)))"

section \<open>calculateToolUsage\<close>

record ToolUsageEntry =
  t_name :: string
  t_count :: tally

definition countTools :: "Conversation list \<Rightarrow> tally js_object" where
  "countTools conversations =
     foldl (\<lambda>counts conv.
              foldl (\<lambda>counts msg. foldl tallyItem counts (contentOf msg))
                counts (chat_messages conv))
       [] conversations"

text \<open>\<^verbatim>\<open>b.count - a.count\<close>: a string that holds a function's source text converts to
  \<^verbatim>\<open>NaN\<close>.\<close>

definition byCount :: "ToolUsageEntry \<Rightarrow> ToolUsageEntry \<Rightarrow> int option" where
  "byCount a b =
     (case (t_count b, t_count a) of
        (Count m, Count n) \<Rightarrow> Some (int m - int n)
      | _ \<Rightarrow> None)"

definition calculateToolUsage :: "Conversation list \<Rightarrow> ToolUsageEntry list" where
  "calculateToolUsage conversations =
     Array_sort byCount
       (map (\<lambda>p. \<lparr> t_name = fst p, t_count = snd p \<rparr>)
          (Object_entries (countTools conversations)))"

section \<open>getUserName and calculateConversationDetails\<close>

definition getUserName :: "User list \<Rightarrow> string \<Rightarrow> string" where
  "getUserName users uuid =
     (case find (\<lambda>u. u_uuid u = uuid) users of
        None \<Rightarrow> ''Unknown''
      | Some u \<Rightarrow> full_name u)"

record ConversationDetail =
  cd_uuid :: string
  cd_name :: string
  userName :: string
  cd_created_at :: string
  cd_messageCount :: nat
  cd_humanMessages :: nat
  cd_assistantMessages :: nat
  humanChars :: nat
  assistantChars :: nat
  cd_thinkingBlocks :: nat
  toolsUsed :: "tally js_object"
  hasThinking :: bool

text \<open>The function mapped over \<^verbatim>\<open>conversations\<close>.\<close>

definition conversationDetail :: "User list \<Rightarrow> Conversation \<Rightarrow> ConversationDetail" where
  "conversationDetail users conv =
     (let humanMsgs = filter (\<lambda>m. sender m = ''human'') (chat_messages conv);
          assistantMsgs = filter (\<lambda>m. sender m = ''assistant'') (chat_messages conv);
          scanned = scanMessages (chat_messages conv)
      in \<lparr> cd_uuid = conv_uuid conv,
           cd_name = (if conv_name conv = [] then ''Untitled'' else conv_name conv),
           userName = getUserName users (account_uuid conv),
           cd_created_at = created_at conv,
           cd_messageCount = length (chat_messages conv),
           cd_humanMessages = length humanMsgs,
           cd_assistantMessages = length assistantMsgs,
           humanChars = sumChars humanMsgs,
           assistantChars = sumChars assistantMsgs,
           cd_thinkingBlocks = fst scanned,
           toolsUsed = snd scanned,
           hasThinking = (fst scanned > 0) \<rparr>)"

text \<open>\<^verbatim>\<open>new Date(b.created_at).getTime() - new Date(a.created_at).getTime()\<close>\<close>

definition byCreatedAt ::
  "(string \<Rightarrow> int option) \<Rightarrow> ConversationDetail \<Rightarrow> ConversationDetail \<Rightarrow> int option" where
  "byCreatedAt getTime a b =
     (case (getTime (cd_created_at b), getTime (cd_created_at a)) of
        (Some x, Some y) \<Rightarrow> Some (x - y)
      | _ \<Rightarrow> None)"

definition calculateConversationDetails ::
  "(string \<Rightarrow> int option) \<Rightarrow> Conversation list \<Rightarrow> User list \<Rightarrow> ConversationDetail list" where
  "calculateConversationDetails getTime conversations users =
     Array_sort (byCreatedAt getTime) (map (conversationDetail users) conversations)"

section \<open>The archive loader (processZipFile)\<close>

text \<open>
  A parsed JSON value. A number is the bit pattern of its IEEE 754 double; the loader
  only asks whether a value is falsy (\<^verbatim>\<open>!usersData\<close>) and whether it is an array.
  \<^verbatim>\<open>null\<close> is \<open>JNull\<close>, also as the initial value of \<^verbatim>\<open>usersData\<close> and
  \<^verbatim>\<open>conversationsData\<close>.
\<close>

datatype json =
    JNull
  | JBool bool
  | JNumber "64 word"
  | JString string
  | JArray "json list"
  | JObject "(string \<times> json) list"

text \<open>Falsy numbers are \<open>+0\<close>, \<open>-0\<close> and \<^verbatim>\<open>NaN\<close>: without the sign bit, the pattern is
  zero or lies above the pattern of infinity.\<close>

fun truthy :: "json \<Rightarrow> bool" where
  "truthy JNull = False"
| "truthy (JBool b) = b"
| "truthy (JNumber w) = (take_bit 63 w \<noteq> 0 \<and> take_bit 63 w \<le> 0x7FF0000000000000)"
| "truthy (JString s) = (s \<noteq> [])"
| "truthy (JArray vs) = True"
| "truthy (JObject ps) = True"

fun isArray :: "json \<Rightarrow> bool" where
  "isArray (JArray vs) = True"
| "isArray v = False"

text \<open>
  What a \<^verbatim>\<open>catch\<close> receives, and the message the handler stores:
  \<^verbatim>\<open>err instanceof Error ? err.message : "Failed to process zip file"\<close>.
\<close>

datatype thrown = Error string | NonError

definition caughtMessage :: "thrown \<Rightarrow> string" where
  "caughtMessage t = (case t of Error msg \<Rightarrow> msg | NonError \<Rightarrow> ''Failed to process zip file'')"

text \<open>
  An entry of \<^verbatim>\<open>zip.files\<close>. Decompression and \<^verbatim>\<open>JSON.parse\<close> belong to the platform,
  and the loader uses an entry's content only through
  \<^verbatim>\<open>JSON.parse(await zipEntry.async("string"))\<close>; \<open>parsed\<close> is the outcome of that
  expression on the entry: \<open>Inr v\<close> when it yields the value \<open>v\<close>, \<open>Inl t\<close> when it throws
  \<open>t\<close> (a \<^verbatim>\<open>SyntaxError\<close> for malformed JSON). An archive is the list of its entries in
  the order \<^verbatim>\<open>Object.entries(zip.files)\<close> lists them.
\<close>

record ZipEntry =
  path :: string
  dir :: bool
  parsed :: "thrown + json"

text \<open>\<^verbatim>\<open>path.split("/").pop()?.toLowerCase()\<close>: the text after the last slash, in lower
  case (on the code units below 256: the letters A-Z and the accented capitals
  U+00C0-U+00DE without the multiplication sign).\<close>

definition lastSegment :: "string \<Rightarrow> string" where
  "lastSegment p = rev (takeWhile (\<lambda>c. c \<noteq> CHR ''/'') (rev p))"

definition lower_unit :: "char \<Rightarrow> char" where
  "lower_unit c =
     (let n = (of_char c :: nat) in
      if (65 \<le> n \<and> n \<le> 90) \<or> (192 \<le> n \<and> n \<le> 222 \<and> n \<noteq> 215)
      then char_of (n + 32) else c)"

definition toLowerCase :: "string \<Rightarrow> string" where
  "toLowerCase s = map lower_unit s"

definition fileName :: "string \<Rightarrow> string" where
  "fileName p = toLowerCase (lastSegment p)"

text \<open>The loop body on (\<^verbatim>\<open>usersData\<close>, \<^verbatim>\<open>conversationsData\<close>, \<^verbatim>\<open>projectsData\<close>); a throw
  leaves the loop.\<close>

definition scanEntry :: "json \<times> json \<times> json \<Rightarrow> ZipEntry \<Rightarrow> thrown + json \<times> json \<times> json" where
  "scanEntry acc e =
     (case acc of (usersData, conversationsData, projectsData) \<Rightarrow>
        if dir e then Inr acc
        else if fileName (path e) = ''users.json'' then
          (case parsed e of Inl t \<Rightarrow> Inl t
                          | Inr v \<Rightarrow> Inr (v, conversationsData, projectsData))
        else if fileName (path e) = ''conversations.json'' then
          (case parsed e of Inl t \<Rightarrow> Inl t
                          | Inr v \<Rightarrow> Inr (usersData, v, projectsData))
        else if fileName (path e) = ''projects.json'' then
          (case parsed e of Inl t \<Rightarrow> Inl t
                          | Inr v \<Rightarrow> Inr (usersData, conversationsData, v))
        else Inr acc)"

fun scanEntries :: "json \<times> json \<times> json \<Rightarrow> ZipEntry list \<Rightarrow> thrown + json \<times> json \<times> json" where
  "scanEntries acc [] = Inr acc"
| "scanEntries acc (e # es) =
     (case scanEntry acc e of Inl t \<Rightarrow> Inl t | Inr acc' \<Rightarrow> scanEntries acc' es)"

text \<open>The \<^verbatim>\<open>try\<close> block after \<^verbatim>\<open>JSZip.loadAsync\<close>, up to the state updates: the three
  arrays, or what was thrown.\<close>

definition loadArchive :: "ZipEntry list \<Rightarrow> thrown + json list \<times> json list \<times> json list" where
  "loadArchive files =
     (case scanEntries (JNull, JNull, JArray []) files of
        Inl t \<Rightarrow> Inl t
      | Inr (usersData, conversationsData, projectsData) \<Rightarrow>
          if \<not> truthy usersData \<or> \<not> truthy conversationsData
          then Inl (Error ''Zip must contain users.json and conversations.json'')
          else (case (usersData, conversationsData) of
                  (JArray us, JArray cs) \<Rightarrow>
                    Inr (us, cs, (case projectsData of JArray ps \<Rightarrow> ps | _ \<Rightarrow> []))
                | _ \<Rightarrow> Inl (Error ''users.json and conversations.json must be arrays'')))"

text \<open>
  The component state \<^verbatim>\<open>processZipFile\<close> writes. \<open>opened\<close> is the outcome of
  \<^verbatim>\<open>JSZip.loadAsync(file)\<close>: the archive's entries, or what it threw. The result is
  the state once the returned promise has settled.
\<close>

record AppState =
  st_users :: "json list"
  st_conversations :: "json list"
  st_projects :: "json list"
  dataLoaded :: bool
  loading :: bool
  st_error :: "string option"

definition processZipFile :: "AppState \<Rightarrow> thrown + ZipEntry list \<Rightarrow> AppState" where
  "processZipFile st opened =
     (let st1 = st \<lparr> loading := True, st_error := None \<rparr>;
          st2 =
            (case opened of
               Inl t \<Rightarrow> st1 \<lparr> st_error := Some (caughtMessage t) \<rparr>
             | Inr files \<Rightarrow>
                 (case loadArchive files of
                    Inl t \<Rightarrow> st1 \<lparr> st_error := Some (caughtMessage t) \<rparr>
                  | Inr (us, cs, ps) \<Rightarrow>
                      st1 \<lparr> st_users := us, st_conversations := cs, st_projects := ps,
                            dataLoaded := True \<rparr>))
      in st2 \<lparr> loading := False \<rparr>)"

text \<open>The entries the loop reads under the name \<open>n\<close>, and an entry whose read does not
  throw.\<close>

definition entriesNamed :: "string \<Rightarrow> ZipEntry list \<Rightarrow> ZipEntry list" where
  "entriesNamed n files = filter (\<lambda>e. \<not> dir e \<and> fileName (path e) = n) files"

definition isRead :: "ZipEntry \<Rightarrow> bool" where
  "isRead e =
     (\<not> dir e \<and> fileName (path e) \<in> {''users.json'', ''conversations.json'', ''projects.json''})"

definition readable :: "ZipEntry \<Rightarrow> bool" where
  "readable e = (if isRead e then \<not> isl (parsed e) else True)"

section \<open>Notions used in the statements\<close>

text \<open>The value the loop leaves in a variable whose initial value is \<open>d\<close> and which is
  assigned from the entries named \<open>n\<close>, when every read succeeds.\<close>

definition lastNamed :: "string \<Rightarrow> json \<Rightarrow> ZipEntry list \<Rightarrow> json" where
  "lastNamed n d files =
     (if entriesNamed n files = [] then d
      else (case parsed (last (entriesNamed n files)) of Inr v \<Rightarrow> v | Inl t \<Rightarrow> d))"

text \<open>A message with its absent \<^verbatim>\<open>text\<close> and \<^verbatim>\<open>content\<close> made present and empty, and a
  conversation with every message so treated.\<close>

definition presentMessage :: "ChatMessage \<Rightarrow> ChatMessage" where
  "presentMessage m =
     m \<lparr> m_text := Some (case m_text m of None \<Rightarrow> [] | Some t \<Rightarrow> t),
         content := Some (case content m of None \<Rightarrow> [] | Some cs \<Rightarrow> cs) \<rparr>"

definition presentConversation :: "Conversation \<Rightarrow> Conversation" where
  "presentConversation c = c \<lparr> chat_messages := map presentMessage (chat_messages c) \<rparr>"

text \<open>\<^verbatim>\<open>s.startsWith(p)\<close>, and a comparison that orders the keys \<open>ks\<close> as the comparison
  of strings by code units does.\<close>

definition startsWith :: "string \<Rightarrow> string \<Rightarrow> bool" where
  "startsWith s p = (take (length p) s = p)"

definition ordersByCodeUnits :: "(string \<Rightarrow> string \<Rightarrow> int) \<Rightarrow> string list \<Rightarrow> bool" where
  "ordersByCodeUnits localeCompare ks =
     list_all (\<lambda>a. list_all (\<lambda>b. (localeCompare a b \<le> 0) = (a \<le> b)) ks) ks"

text \<open>A comparison that is total and transitive on the keys \<open>ks\<close>, as a comparison by
  collation keys is.\<close>

definition consistentOn :: "(string \<Rightarrow> string \<Rightarrow> int) \<Rightarrow> string list \<Rightarrow> bool" where
  "consistentOn localeCompare ks =
     list_all (\<lambda>a. list_all (\<lambda>b.
         (localeCompare a b \<le> 0 \<or> localeCompare b a \<le> 0)
         \<and> list_all (\<lambda>c. localeCompare a b \<le> 0 \<and> localeCompare b c \<le> 0
                          \<longrightarrow> localeCompare a c \<le> 0) ks) ks) ks"

text \<open>
  What a tally table holds under a key: a non-empty name; a count of at least 1 when the
  name is not inherited, and otherwise the text that starts with the inherited value of
  that name.
\<close>

fun goodEntry :: "string \<Rightarrow> tally \<Rightarrow> bool" where
  "goodEntry k (Count n) = (k \<noteq> [] \<and> 1 \<le> n \<and> k \<notin> set Object_prototype_keys)"
| "goodEntry k (Text q j) = (k \<noteq> [] \<and> q = k \<and> k \<in> set Object_prototype_keys \<and> 1 \<le> j)"

definition wellTallied :: "tally js_object \<Rightarrow> bool" where
  "wellTallied obj = list_all (\<lambda>p. goodEntry (fst p) (snd p)) obj"

section \<open>Example inputs\<close>

text \<open>Two users, and three conversations: two of the first user (two and three
  messages), one of the second (no message). One message has neither text nor content.\<close>

definition ex_userA :: User where
  "ex_userA = \<lparr> u_uuid = ''a'', full_name = ''Ann'', email_address = ''ann@example.org'',
                verified_phone_number = [] \<rparr>"

definition ex_userB :: User where
  "ex_userB = \<lparr> u_uuid = ''b'', full_name = ''Bob'', email_address = ''bob@example.org'',
                verified_phone_number = [] \<rparr>"

definition ex_human :: ChatMessage where
  "ex_human = \<lparr> m_uuid = ''m1'', m_text = Some ''hello'', sender = ''human'',
                m_created_at = ''2024-01-01T10:00:00Z'', m_updated_at = ''2024-01-01T10:00:00Z'',
                content = Some [\<lparr> c_type = ''tool_use'', c_text = None, c_name = Some ''web_search'' \<rparr>,
                                \<lparr> c_type = ''tool_use'', c_text = None, c_name = Some ''web_search'' \<rparr>,
                                \<lparr> c_type = ''thinking'', c_text = None, c_name = None \<rparr>] \<rparr>"

definition ex_assistant :: ChatMessage where
  "ex_assistant = \<lparr> m_uuid = ''m2'', m_text = None, sender = ''assistant'',
                    m_created_at = ''2024-01-01T10:00:05Z'', m_updated_at = ''2024-01-01T10:00:05Z'',
                    content = None \<rparr>"

definition ex_conv1 :: Conversation where
  "ex_conv1 = \<lparr> conv_uuid = ''c1'', conv_name = [], summary = [],
                created_at = ''2024-01-01T10:00:00Z'', updated_at = ''2024-01-01T10:05:00Z'',
                account_uuid = ''a'', chat_messages = [ex_human, ex_assistant] \<rparr>"

definition ex_conv2 :: Conversation where
  "ex_conv2 = \<lparr> conv_uuid = ''c2'', conv_name = ''Plan'', summary = [],
                created_at = ''2024-01-02T09:00:00Z'', updated_at = ''2024-01-02T09:30:00Z'',
                account_uuid = ''a'', chat_messages = [ex_human, ex_assistant, ex_human] \<rparr>"

definition ex_conv3 :: Conversation where
  "ex_conv3 = \<lparr> conv_uuid = ''c3'', conv_name = ''Untitled'', summary = [],
                created_at = ''2024-01-01T23:00:00Z'', updated_at = ''2024-01-01T23:00:00Z'',
                account_uuid = ''b'', chat_messages = [] \<rparr>"

definition ex_users :: "User list" where
  "ex_users = [ex_userA, ex_userB]"

definition ex_conversations :: "Conversation list" where
  "ex_conversations = [ex_conv1, ex_conv2, ex_conv3]"

text \<open>A date parser that rejects every string, and the comparison of strings by their
  code units; on ISO date prefixes \<^verbatim>\<open>localeCompare\<close> orders as the latter does.\<close>

definition noDate :: "string \<Rightarrow> int option" where
  "noDate s = None"

definition codeUnitCompare :: "string \<Rightarrow> string \<Rightarrow> int" where
  "codeUnitCompare a b = (if a < b then - 1 else if a = b then 0 else 1)"

text \<open>A state with data from an earlier load, and entries of archives: a directory, the
  two required files (one under a name in capitals), a projects file that holds the
  object \<^verbatim>\<open>{}\<close>, and files whose content is not JSON.\<close>

definition ex_loaded :: AppState where
  "ex_loaded = \<lparr> st_users = [JObject [(''uuid'', JString ''a'')]],
                 st_conversations = [JObject [(''uuid'', JString ''c1'')]],
                 st_projects = [JObject [(''uuid'', JString ''p1'')]],
                 dataLoaded = True, loading = False, st_error = None \<rparr>"

definition ex_dirEntry :: ZipEntry where
  "ex_dirEntry = \<lparr> path = ''export/'', dir = True, parsed = Inl NonError \<rparr>"

definition ex_usersEntry :: ZipEntry where
  "ex_usersEntry = \<lparr> path = ''export/users.json'', dir = False,
                     parsed = Inr (JArray [JObject [(''uuid'', JString ''b'')]]) \<rparr>"

definition ex_conversationsEntry :: ZipEntry where
  "ex_conversationsEntry = \<lparr> path = ''export/Conversations.JSON'', dir = False,
                             parsed = Inr (JArray []) \<rparr>"

definition ex_projectsObject :: ZipEntry where
  "ex_projectsObject = \<lparr> path = ''export/projects.json'', dir = False,
                         parsed = Inr (JObject []) \<rparr>"

definition ex_projectsMalformed :: ZipEntry where
  "ex_projectsMalformed = \<lparr> path = ''export/projects.json'', dir = False,
       parsed = Inl (Error ''Unexpected token b in JSON at position 1'') \<rparr>"

definition ex_usersMalformed :: ZipEntry where
  "ex_usersMalformed = \<lparr> path = ''export/users.json'', dir = False,
       parsed = Inl (Error ''Unexpected end of JSON input'') \<rparr>"

text \<open>A user whose name is the fallback text, and a conversation with one use of a tool
  named \<^verbatim>\<open>constructor\<close>.\<close>

definition ex_userUnknown :: User where
  "ex_userUnknown = \<lparr> u_uuid = ''b'', full_name = ''Unknown'', email_address = [],
                      verified_phone_number = [] \<rparr>"

definition ex_toolMessage :: ChatMessage where
  "ex_toolMessage = \<lparr> m_uuid = ''m3'', m_text = Some ''ok'', sender = ''assistant'',
       m_created_at = ''2024-01-03T08:00:00Z'', m_updated_at = ''2024-01-03T08:00:00Z'',
       content = Some [\<lparr> c_type = ''tool_use'', c_text = None, c_name = Some ''constructor'' \<rparr>] \<rparr>"

definition ex_toolConv :: Conversation where
  "ex_toolConv = \<lparr> conv_uuid = ''c4'', conv_name = ''Tools'', summary = [],
       created_at = ''2024-01-03T08:00:00Z'', updated_at = ''2024-01-03T08:00:00Z'',
       account_uuid = ''a'', chat_messages = [ex_toolMessage] \<rparr>"

text \<open>A conversation whose timestamp is an ISO 8601 date of reduced precision.\<close>

definition ex_monthConv :: Conversation where
  "ex_monthConv = \<lparr> conv_uuid = ''c5'', conv_name = ''Month'', summary = [],
       created_at = ''2024-01'', updated_at = ''2024-01'',
       account_uuid = ''a'', chat_messages = [] \<rparr>"

text \<open>
  A comparison that ignores the case of letters, as the collation behind
  \<^verbatim>\<open>localeCompare\<close> does before anything else
  (\<^verbatim>\<open>"apr".localeCompare("Jan")\<close> is negative), and two conversations whose timestamps
  are not ISO dates: one starts with a capital letter, one with a small letter.
\<close>

definition caseInsensitiveCompare :: "string \<Rightarrow> string \<Rightarrow> int" where
  "caseInsensitiveCompare a b = codeUnitCompare (toLowerCase a) (toLowerCase b)"

definition ex_janConv :: Conversation where
  "ex_janConv = \<lparr> conv_uuid = ''c6'', conv_name = ''January'', summary = [],
       created_at = ''Jan 05 2024 10:00:00'', updated_at = ''Jan 05 2024 10:00:00'',
       account_uuid = ''a'', chat_messages = [] \<rparr>"

definition ex_aprConv :: Conversation where
  "ex_aprConv = \<lparr> conv_uuid = ''c7'', conv_name = ''April'', summary = [],
       created_at = ''apr 01 2024 09:00:00'', updated_at = ''apr 01 2024 09:00:00'',
       account_uuid = ''a'', chat_messages = [] \<rparr>"

section \<open>Facts about the sort\<close>

lemma mset_insert_by: "mset (insert_by cmp x ys) = add_mset x (mset ys)"
  by (induction ys) auto

lemma mset_Array_sort: "mset (Array_sort cmp xs) = mset xs"
  by (induction xs) (auto simp: Array_sort_def mset_insert_by)

lemma set_Array_sort: "set (Array_sort cmp xs) = set xs"
  using mset_Array_sort [of cmp xs] by (metis set_mset_mset)

lemma length_Array_sort: "length (Array_sort cmp xs) = length xs"
  using mset_Array_sort [of cmp xs] by (metis size_mset)

lemma Math_round_div_round:
  assumes "0 < b"
  shows "int (Math_round_div a b) = round (real a / real b)"
proof -
  have "round (real a / real b) = \<lfloor>real a / real b + 1 / 2\<rfloor>"
    by (simp add: round_def)
  also have "real a / real b + 1 / 2 = real (2 * a + b) / real (2 * b)"
    using assms by (simp add: field_simps)
  also have "\<lfloor>real (2 * a + b) / real (2 * b)\<rfloor> = int ((2 * a + b) div (2 * b))"
    by (rule floor_divide_of_nat_eq)
  finally show ?thesis by (simp add: Math_round_div_def)
qed

lemma set_insert_by: "set (insert_by cmp x ys) = insert x (set ys)"
  using mset_insert_by [of cmp x ys] by (metis set_mset_mset set_mset_add_mset_insert)

lemma Array_sort_Cons: "Array_sort cmp (x # xs) = insert_by cmp x (Array_sort cmp xs)"
  by (simp add: Array_sort_def)

lemma insert_by_sorted_wrt:
  assumes trans: "\<And>x y z. R x y \<Longrightarrow> R y z \<Longrightarrow> R x z"
    and total: "\<And>x y. R x y \<or> R y x"
  shows "(\<And>y. y \<in> set ys \<Longrightarrow> keeps_before cmp x y = R x y) \<Longrightarrow> sorted_wrt R ys
         \<Longrightarrow> sorted_wrt R (insert_by cmp x ys)"
proof (induction ys)
  case Nil
  then show ?case by simp
next
  case (Cons y ys)
  have kb: "keeps_before cmp x y = R x y" using Cons.prems(1) by simp
  show ?case
  proof (cases "keeps_before cmp x y")
    case True
    then have "R x y" using kb by simp
    then have "\<forall>z \<in> set ys. R x z" using Cons.prems(2) trans by auto
    with True \<open>R x y\<close> Cons.prems(2) show ?thesis by simp
  next
    case False
    then have "R y x" using kb total by blast
    moreover have "sorted_wrt R (insert_by cmp x ys)"
      using Cons.IH Cons.prems by simp
    ultimately show ?thesis using False Cons.prems(2) by (simp add: set_insert_by)
  qed
qed

lemma Array_sort_sorted_wrt:
  assumes trans: "\<And>x y z. R x y \<Longrightarrow> R y z \<Longrightarrow> R x z"
    and total: "\<And>x y. R x y \<or> R y x"
  shows "(\<And>x y. x \<in> set xs \<Longrightarrow> y \<in> set xs \<Longrightarrow> keeps_before cmp x y = R x y)
         \<Longrightarrow> sorted_wrt R (Array_sort cmp xs)"
proof (induction xs)
  case Nil
  then show ?case by (simp add: Array_sort_def)
next
  case (Cons x xs)
  show ?case
    unfolding Array_sort_Cons
  proof (rule insert_by_sorted_wrt [where R = R])
    fix a b c
    assume "R a b" "R b c"
    then show "R a c" by (rule trans)
  next
    fix a b
    show "R a b \<or> R b a" by (rule total)
  next
    fix y
    assume "y \<in> set (Array_sort cmp xs)"
    then show "keeps_before cmp x y = R x y"
      using Cons.prems by (simp add: set_Array_sort)
  next
    show "sorted_wrt R (Array_sort cmp xs)" using Cons by simp
  qed
qed

lemma filter_insert_by:
  "(\<And>y. y \<in> set ys \<Longrightarrow> P y \<Longrightarrow> P x \<Longrightarrow> keeps_before cmp x y) \<Longrightarrow>
   filter P (insert_by cmp x ys) = (if P x then x # filter P ys else filter P ys)"
  by (induction ys) auto

lemma Array_sort_stable:
  "(\<And>x y. x \<in> set xs \<Longrightarrow> y \<in> set xs \<Longrightarrow> P x \<Longrightarrow> P y \<Longrightarrow> keeps_before cmp x y) \<Longrightarrow>
   filter P (Array_sort cmp xs) = filter P xs"
proof (induction xs)
  case Nil
  then show ?case by (simp add: Array_sort_def)
next
  case (Cons x xs)
  have "filter P (Array_sort cmp xs) = filter P xs" using Cons by simp
  moreover have "\<And>y. y \<in> set (Array_sort cmp xs) \<Longrightarrow> P y \<Longrightarrow> P x \<Longrightarrow> keeps_before cmp x y"
    using Cons.prems by (simp add: set_Array_sort)
  ultimately show ?case
    unfolding Array_sort_Cons using filter_insert_by [of "Array_sort cmp xs" P x cmp] by simp
qed

lemma keeps_before_byConversationCount:
  "keeps_before byConversationCount x y \<longleftrightarrow> conversationCount y \<le> conversationCount x"
  by (simp add: keeps_before_def byConversationCount_def)

section \<open>Laws of calculateStats\<close>

lemma sum_pick:
  "distinct (map f us) \<Longrightarrow> x \<in> set (map f us) \<Longrightarrow>
   sum_list (map (\<lambda>u. if f u = x then (n::nat) else 0) us) = n"
proof (induction us)
  case Nil
  then show ?case by simp
next
  case (Cons u us)
  show ?case
  proof (cases "f u = x")
    case True
    with Cons.prems have "\<forall>v \<in> set us. f v \<noteq> x" by (auto simp: image_iff)
    then have "sum_list (map (\<lambda>u. if f u = x then n else 0) us) = 0"
      by (induction us) auto
    with True show ?thesis by simp
  next
    case False
    with Cons show ?thesis by auto
  qed
qed

lemma messageCount_userStats:
  "messageCount (userStats getTime conversations usr) =
   sum_list (map (\<lambda>c. if account_uuid c = u_uuid usr then length (chat_messages c) else 0)
     conversations)"
  by (induction conversations) (simp_all add: userStats_def Let_def)

text \<open>
  C3. For every entry \<open>s\<close> of the list \<open>calculateStats\<close> returns: when the user's human
  message count is positive, \<open>avgPromptLength\<close> is the total human character count
  divided by the human message count, rounded to the nearest integer; when the count
  is 0 it is exactly 0. The same holds for \<open>avgResponseLength\<close> over the assistant
  messages. Both averages are natural numbers, so never negative, \<^verbatim>\<open>NaN\<close> or
  undefined.
\<close>

theorem C3_average_law:
  assumes "s \<in> set (calculateStats getTime users conversations)"
  shows "avgPromptLength s =
           (if humanMessages s > 0
            then nat (round (real (totalHumanChars s) / real (humanMessages s))) else 0)
       \<and> avgResponseLength s =
           (if assistantMessages s > 0
            then nat (round (real (totalAssistantChars s) / real (assistantMessages s)))
            else 0)"
proof -
  from assms obtain usr where s: "s = userStats getTime conversations usr"
    by (auto simp: calculateStats_def set_Array_sort)
  have r: "\<And>a b. 0 < b \<Longrightarrow> nat (round (real a / real b)) = Math_round_div a b"
    using Math_round_div_round by (metis nat_int)
  show ?thesis
    by (simp add: s userStats_def Let_def r)
qed

theorem C3_average_law_witness:
  "hd (calculateStats noDate ex_users ex_conversations)
     \<in> set (calculateStats noDate ex_users ex_conversations)
   \<and> humanMessages (hd (calculateStats noDate ex_users ex_conversations)) = 3
   \<and> avgPromptLength (hd (calculateStats noDate ex_users ex_conversations))
       = nat (round (real 15 / real 3))
   \<and> assistantMessages (hd (calculateStats noDate ex_users ex_conversations)) = 2
   \<and> avgResponseLength (hd (calculateStats noDate ex_users ex_conversations))
       = nat (round (real 0 / real 2))"
proof -
  have "calculateStats noDate ex_users ex_conversations \<noteq> []"
    by (simp add: calculateStats_def ex_users_def Array_sort_def)
  then have mem: "hd (calculateStats noDate ex_users ex_conversations)
      \<in> set (calculateStats noDate ex_users ex_conversations)"
    by simp
  have v: "humanMessages (hd (calculateStats noDate ex_users ex_conversations)) = 3"
    "totalHumanChars (hd (calculateStats noDate ex_users ex_conversations)) = 15"
    "assistantMessages (hd (calculateStats noDate ex_users ex_conversations)) = 2"
    "totalAssistantChars (hd (calculateStats noDate ex_users ex_conversations)) = 0"
    by code_simp+
  from C3_average_law [OF mem] mem v show ?thesis by simp
qed

text \<open>
  C4. When the users have pairwise distinct uuids and the account uuid of every
  conversation is the uuid of some user, the \<open>messageCount\<close> fields of the entries
  \<open>calculateStats\<close> returns add up to the number of messages of all conversations.
\<close>

theorem C4_sum_law:
  assumes "distinct (map u_uuid users)"
    and "list_all (\<lambda>c. account_uuid c \<in> set (map u_uuid users)) conversations"
  shows "sum_list (map messageCount (calculateStats getTime users conversations)) =
         sum_list (map (\<lambda>c. length (chat_messages c)) conversations)"
proof -
  have "sum_list (map messageCount (calculateStats getTime users conversations)) =
        sum_list (map messageCount (map (userStats getTime conversations) users))"
    unfolding calculateStats_def
    by (metis mset_Array_sort mset_map sum_mset_sum_list)
  also have "\<dots> = sum_list (map (\<lambda>usr. sum_list (map (\<lambda>c. if account_uuid c = u_uuid usr
                 then length (chat_messages c) else 0) conversations)) users)"
    by (simp add: messageCount_userStats comp_def)
  also have "\<dots> = sum_list (map (\<lambda>c. length (chat_messages c)) conversations)"
    using assms(2)
  proof (induction conversations)
    case Nil
    then show ?case by simp
  next
    case (Cons c cs)
    then have c: "account_uuid c \<in> set (map u_uuid users)"
      and cs: "list_all (\<lambda>c. account_uuid c \<in> set (map u_uuid users)) cs"
      by simp_all
    have "sum_list (map (\<lambda>usr. if u_uuid usr = account_uuid c
            then length (chat_messages c) else 0) users) = length (chat_messages c)"
      using sum_pick [OF assms(1) c] by simp
    then show ?case
      using Cons.IH [OF cs] by (simp add: sum_list_addf eq_commute [of "account_uuid c"])
  qed
  finally show ?thesis .
qed

theorem C4_sum_law_witness:
  "distinct (map u_uuid ex_users)
   \<and> list_all (\<lambda>c. account_uuid c \<in> set (map u_uuid ex_users)) ex_conversations
   \<and> sum_list (map messageCount (calculateStats noDate ex_users ex_conversations)) = 5"
proof -
  have d: "distinct (map u_uuid ex_users)"
    by (simp add: ex_users_def ex_userA_def ex_userB_def)
  have r: "list_all (\<lambda>c. account_uuid c \<in> set (map u_uuid ex_users)) ex_conversations"
    by (simp add: ex_users_def ex_userA_def ex_userB_def ex_conversations_def ex_conv1_def
        ex_conv2_def ex_conv3_def)
  have "sum_list (map (\<lambda>c. length (chat_messages c)) ex_conversations) = 5"
    by (simp add: ex_conversations_def ex_conv1_def ex_conv2_def ex_conv3_def)
  with C4_sum_law [OF d r, of noDate] d r show ?thesis by simp
qed

text \<open>
  C5. The list \<open>calculateStats\<close> returns is sorted in descending order of
  \<open>conversationCount\<close>, and the sort is stable: for every count \<open>k\<close>, the entries with
  that count stand in the order in which their users stand in the input.
\<close>

theorem C5_sorted_stable:
  "sorted_wrt (\<lambda>a b. conversationCount b \<le> conversationCount a)
     (calculateStats getTime users conversations)
   \<and> filter (\<lambda>s. conversationCount s = k) (calculateStats getTime users conversations)
     = filter (\<lambda>s. conversationCount s = k) (map (userStats getTime conversations) users)"
proof
  show "sorted_wrt (\<lambda>a b. conversationCount b \<le> conversationCount a)
     (calculateStats getTime users conversations)"
    unfolding calculateStats_def
    by (rule Array_sort_sorted_wrt) (auto simp: keeps_before_byConversationCount)
  show "filter (\<lambda>s. conversationCount s = k) (calculateStats getTime users conversations)
     = filter (\<lambda>s. conversationCount s = k) (map (userStats getTime conversations) users)"
    unfolding calculateStats_def
    by (rule Array_sort_stable) (simp add: keeps_before_byConversationCount)
qed

section \<open>Laws of the loader\<close>

lemma readable_named:
  assumes "list_all readable es" and "n \<in> {''users.json'', ''conversations.json'', ''projects.json''}"
    and "entriesNamed n es \<noteq> []"
  shows "\<exists>v. parsed (last (entriesNamed n es)) = Inr v"
proof -
  have "last (entriesNamed n es) \<in> set (entriesNamed n es)" using assms(3) by simp
  then have m: "last (entriesNamed n es) \<in> set es"
    and p: "\<not> dir (last (entriesNamed n es)) \<and> fileName (path (last (entriesNamed n es))) = n"
    by (auto simp: entriesNamed_def)
  from m assms(1) have "readable (last (entriesNamed n es))" by (simp add: list_all_iff)
  with p assms(2) have "\<not> isl (parsed (last (entriesNamed n es)))"
    by (auto simp: readable_def isRead_def)
  then show ?thesis by (cases "parsed (last (entriesNamed n es))") auto
qed

lemma lastNamed_Cons:
  assumes "list_all readable es" and "n \<in> {''users.json'', ''conversations.json'', ''projects.json''}"
  shows "lastNamed n d (e # es) =
         lastNamed n (if \<not> dir e \<and> fileName (path e) = n
                      then (case parsed e of Inr v \<Rightarrow> v | Inl t \<Rightarrow> d) else d) es"
proof (cases "entriesNamed n es = []")
  case True
  then show ?thesis by (simp add: lastNamed_def entriesNamed_def)
next
  case False
  from readable_named [OF assms False] obtain v where "parsed (last (entriesNamed n es)) = Inr v" ..
  with False show ?thesis by (simp add: lastNamed_def entriesNamed_def)
qed

lemma scanEntries_readable:
  "list_all readable files \<Longrightarrow>
   scanEntries (u, c, p) files =
     Inr (lastNamed ''users.json'' u files, lastNamed ''conversations.json'' c files,
          lastNamed ''projects.json'' p files)"
proof (induction files arbitrary: u c p)
  case Nil
  then show ?case by (simp add: lastNamed_def entriesNamed_def)
next
  case (Cons e es)
  then have es: "list_all readable es" and e: "readable e" by simp_all
  note L = lastNamed_Cons [OF es]
  show ?case
  proof (cases "isRead e")
    case False
    then have "scanEntry (u, c, p) e = Inr (u, c, p)"
      by (auto simp: scanEntry_def isRead_def)
    with False show ?thesis
      using Cons.IH [OF es] by (auto simp: L isRead_def)
  next
    case True
    with e obtain v where v: "parsed e = Inr v"
      by (cases "parsed e") (auto simp: readable_def)
    from True show ?thesis
      using Cons.IH [OF es] v by (auto simp: L isRead_def scanEntry_def)
  qed
qed

lemma scanEntry_readable: "readable e \<Longrightarrow> \<exists>acc'. scanEntry acc e = Inr acc'"
  by (cases acc; cases "parsed e") (auto simp: scanEntry_def readable_def isRead_def split: if_splits)

lemma scanEntries_unreadable:
  "\<not> list_all readable files \<Longrightarrow>
   \<exists>e t. e \<in> set files \<and> isRead e \<and> parsed e = Inl t \<and> scanEntries acc files = Inl t"
proof (induction files arbitrary: acc)
  case Nil
  then show ?case by simp
next
  case (Cons e es)
  show ?case
  proof (cases "readable e")
    case True
    from scanEntry_readable [OF True] obtain acc' where s: "scanEntry acc e = Inr acc'"
      by blast
    from True Cons.prems have "\<not> list_all readable es" by simp
    from Cons.IH [OF this, of acc'] s show ?thesis by auto
  next
    case False
    then obtain t where "isRead e" "parsed e = Inl t"
      by (cases "parsed e") (auto simp: readable_def split: if_splits)
    moreover from this have "scanEntry acc e = Inl t"
      by (cases acc) (auto simp: scanEntry_def isRead_def)
    ultimately show ?thesis by auto
  qed
qed


lemma loadArchive_readable:
  assumes "list_all readable files"
  shows "loadArchive files =
     (if \<not> truthy (lastNamed ''users.json'' JNull files)
         \<or> \<not> truthy (lastNamed ''conversations.json'' JNull files)
      then Inl (Error ''Zip must contain users.json and conversations.json'')
      else (case (lastNamed ''users.json'' JNull files, lastNamed ''conversations.json'' JNull files) of
              (JArray us, JArray cs) \<Rightarrow>
                Inr (us, cs, (case lastNamed ''projects.json'' (JArray []) files of JArray ps \<Rightarrow> ps | _ \<Rightarrow> []))
            | _ \<Rightarrow> Inl (Error ''users.json and conversations.json must be arrays'')))"
  by (simp add: loadArchive_def scanEntries_readable [OF assms])

lemma lastNamed_present:
  "entriesNamed n files \<noteq> [] \<Longrightarrow> parsed (last (entriesNamed n files)) = Inr v \<Longrightarrow>
   lastNamed n d files = v"
  by (simp add: lastNamed_def)

text \<open>
  C9. When every entry the loader reads parses, the last \<^verbatim>\<open>users.json\<close> entry and the
  last \<^verbatim>\<open>conversations.json\<close> entry hold arrays, and a \<^verbatim>\<open>projects.json\<close> entry is
  present whose value (the last one read) is not an array, such as the object \<^verbatim>\<open>{}\<close>,
  the load succeeds: the two arrays are stored, the projects are the empty sequence,
  \<open>dataLoaded\<close> is set and no error is shown.
\<close>

theorem C9_projects_not_array:
  assumes "list_all readable files"
    and "entriesNamed ''users.json'' files \<noteq> []"
    and "parsed (last (entriesNamed ''users.json'' files)) = Inr (JArray us)"
    and "entriesNamed ''conversations.json'' files \<noteq> []"
    and "parsed (last (entriesNamed ''conversations.json'' files)) = Inr (JArray cs)"
    and "entriesNamed ''projects.json'' files \<noteq> []"
    and "parsed (last (entriesNamed ''projects.json'' files)) = Inr v"
    and "\<not> isArray v"
  shows "processZipFile st (Inr files) =
         st \<lparr> st_users := us, st_conversations := cs, st_projects := [],
              dataLoaded := True, loading := False, st_error := None \<rparr>"
proof -
  have u: "lastNamed ''users.json'' JNull files = JArray us"
    using assms(2,3) by (rule lastNamed_present)
  have c: "lastNamed ''conversations.json'' JNull files = JArray cs"
    using assms(4,5) by (rule lastNamed_present)
  have p: "lastNamed ''projects.json'' (JArray []) files = v"
    using assms(6,7) by (rule lastNamed_present)
  have "(case v of JArray ps \<Rightarrow> ps | _ \<Rightarrow> []) = []"
    using assms(8) by (cases v) simp_all
  then have "loadArchive files = Inr (us, cs, [])"
    by (simp add: loadArchive_readable [OF assms(1)] u c p)
  then show ?thesis by (simp add: processZipFile_def)
qed

lemma ex_names:
  "fileName (path ex_usersEntry) = ''users.json''"
  "fileName (path ex_conversationsEntry) = ''conversations.json''"
  "fileName (path ex_projectsObject) = ''projects.json''"
  "fileName (path ex_projectsMalformed) = ''projects.json''"
  "fileName (path ex_usersMalformed) = ''users.json''"
  by code_simp+

text \<open>The archive with a directory, \<^verbatim>\<open>users.json\<close>, \<^verbatim>\<open>Conversations.JSON\<close> and a
  \<^verbatim>\<open>projects.json\<close> that holds \<^verbatim>\<open>{}\<close>.\<close>

theorem C9_projects_not_array_witness:
  "list_all readable [ex_dirEntry, ex_usersEntry, ex_conversationsEntry, ex_projectsObject]
   \<and> st_projects (processZipFile ex_loaded
        (Inr [ex_dirEntry, ex_usersEntry, ex_conversationsEntry, ex_projectsObject])) = []
   \<and> dataLoaded (processZipFile ex_loaded
        (Inr [ex_dirEntry, ex_usersEntry, ex_conversationsEntry, ex_projectsObject]))
   \<and> st_error (processZipFile ex_loaded
        (Inr [ex_dirEntry, ex_usersEntry, ex_conversationsEntry, ex_projectsObject])) = None
   \<and> st_users (processZipFile ex_loaded
        (Inr [ex_dirEntry, ex_usersEntry, ex_conversationsEntry, ex_projectsObject]))
       = [JObject [(''uuid'', JString ''b'')]]"
proof -
  let ?F = "[ex_dirEntry, ex_usersEntry, ex_conversationsEntry, ex_projectsObject]"
  have d: "dir ex_dirEntry" "\<not> dir ex_usersEntry" "\<not> dir ex_conversationsEntry" "\<not> dir ex_projectsObject"
    by (simp_all add: ex_dirEntry_def ex_usersEntry_def ex_conversationsEntry_def ex_projectsObject_def)
  have r: "list_all readable ?F"
    by (simp add: readable_def isRead_def d ex_names)
      (simp add: ex_usersEntry_def ex_conversationsEntry_def ex_projectsObject_def)
  have nu: "entriesNamed ''users.json'' ?F = [ex_usersEntry]"
    and nc: "entriesNamed ''conversations.json'' ?F = [ex_conversationsEntry]"
    and np: "entriesNamed ''projects.json'' ?F = [ex_projectsObject]"
    by (simp_all add: entriesNamed_def d ex_names)
  have "processZipFile ex_loaded (Inr ?F) =
        ex_loaded \<lparr> st_users := [JObject [(''uuid'', JString ''b'')]], st_conversations := [],
          st_projects := [], dataLoaded := True, loading := False, st_error := None \<rparr>"
    by (rule C9_projects_not_array [OF r, where v = "JObject []"])
      (simp_all add: nu nc np, simp_all add: ex_usersEntry_def ex_conversationsEntry_def ex_projectsObject_def)
  with r show ?thesis by simp
qed


text \<open>
  C1, as the code has it. When some \<^verbatim>\<open>projects.json\<close> entry fails to parse and every
  other entry the loader reads parses, the load fails: the message of the error that
  \<^verbatim>\<open>JSON.parse\<close> threw on a \<^verbatim>\<open>projects.json\<close> entry is shown, and the users,
  conversations, projects and \<open>dataLoaded\<close> of the state stay as they were. A malformed
  projects file is fatal, as a malformed required file is; only a projects file that
  parses to a value that is not an array degrades to the empty sequence.
\<close>

theorem C1_malformed_projects_fatal:
  assumes "list_all (\<lambda>e. fileName (path e) = ''projects.json'' \<or> readable e) files"
    and "\<not> list_all readable files"
  shows "\<exists>e t. e \<in> set files \<and> \<not> dir e \<and> fileName (path e) = ''projects.json''
           \<and> parsed e = Inl t
           \<and> processZipFile st (Inr files) =
               st \<lparr> loading := False, st_error := Some (caughtMessage t) \<rparr>"
proof -
  from scanEntries_unreadable [OF assms(2), of "(JNull, JNull, JArray [])"]
  obtain e t where e: "e \<in> set files" "isRead e" "parsed e = Inl t"
    and s: "scanEntries (JNull, JNull, JArray []) files = Inl t"
    by blast
  from e(2,3) have "\<not> readable e" by (simp add: readable_def)
  with assms(1) e(1) have n: "fileName (path e) = ''projects.json''"
    by (auto simp: list_all_iff)
  from e(2) have d: "\<not> dir e" by (simp add: isRead_def)
  from s have "loadArchive files = Inl t" by (simp add: loadArchive_def)
  then have "processZipFile st (Inr files) =
      st \<lparr> loading := False, st_error := Some (caughtMessage t) \<rparr>"
    by (simp add: processZipFile_def)
  with e(1,3) n d show ?thesis by blast
qed

text \<open>The archive with both required files and a \<^verbatim>\<open>projects.json\<close> that is not
  JSON.\<close>

theorem C1_malformed_projects_fatal_witness:
  "list_all (\<lambda>e. fileName (path e) = ''projects.json'' \<or> readable e)
     [ex_usersEntry, ex_conversationsEntry, ex_projectsMalformed]
   \<and> \<not> list_all readable [ex_usersEntry, ex_conversationsEntry, ex_projectsMalformed]
   \<and> processZipFile ex_loaded (Inr [ex_usersEntry, ex_conversationsEntry, ex_projectsMalformed])
       = ex_loaded \<lparr> loading := False,
           st_error := Some ''Unexpected token b in JSON at position 1'' \<rparr>"
proof -
  let ?F = "[ex_usersEntry, ex_conversationsEntry, ex_projectsMalformed]"
  have d: "\<not> dir ex_usersEntry" "\<not> dir ex_conversationsEntry" "\<not> dir ex_projectsMalformed"
    by (simp_all add: ex_usersEntry_def ex_conversationsEntry_def ex_projectsMalformed_def)
  have p: "parsed ex_projectsMalformed = Inl (Error ''Unexpected token b in JSON at position 1'')"
    "\<not> isl (parsed ex_usersEntry)" "\<not> isl (parsed ex_conversationsEntry)"
    by (simp_all add: ex_usersEntry_def ex_conversationsEntry_def ex_projectsMalformed_def)
  have a: "list_all (\<lambda>e. fileName (path e) = ''projects.json'' \<or> readable e) ?F"
    by (simp add: readable_def isRead_def d p ex_names)
  have b: "\<not> list_all readable ?F"
    by (simp add: readable_def isRead_def d p ex_names)
  from C1_malformed_projects_fatal [OF a b, of ex_loaded]
  obtain e t where e: "e \<in> set ?F" "fileName (path e) = ''projects.json''" "parsed e = Inl t"
    and r: "processZipFile ex_loaded (Inr ?F) =
      ex_loaded \<lparr> loading := False, st_error := Some (caughtMessage t) \<rparr>"
    by blast
  from e(1,2) have "e = ex_projectsMalformed" by (auto simp: ex_names)
  with e(3) p(1) have "t = Error ''Unexpected token b in JSON at position 1''"
    by simp
  then have "caughtMessage t = ''Unexpected token b in JSON at position 1''"
    by (simp add: caughtMessage_def)
  with r a b show ?thesis by simp
qed

text \<open>C1 as stated fails on that archive: the load ends with the parser's error, and
  the projects of the earlier load are still in the state.\<close>

theorem C1_counterexample:
  "fileName (path ex_projectsMalformed) = ''projects.json''
   \<and> parsed ex_projectsMalformed = Inl (Error ''Unexpected token b in JSON at position 1'')
   \<and> parsed ex_usersEntry = Inr (JArray [JObject [(''uuid'', JString ''b'')]])
   \<and> parsed ex_conversationsEntry = Inr (JArray [])
   \<and> st_error (processZipFile ex_loaded
        (Inr [ex_usersEntry, ex_conversationsEntry, ex_projectsMalformed]))
       = Some ''Unexpected token b in JSON at position 1''
   \<and> st_projects (processZipFile ex_loaded
        (Inr [ex_usersEntry, ex_conversationsEntry, ex_projectsMalformed]))
       = [JObject [(''uuid'', JString ''p1'')]]
   \<and> st_users (processZipFile ex_loaded
        (Inr [ex_usersEntry, ex_conversationsEntry, ex_projectsMalformed]))
       = [JObject [(''uuid'', JString ''a'')]]"
proof -
  have d: "\<not> dir ex_usersEntry" "\<not> dir ex_conversationsEntry" "\<not> dir ex_projectsMalformed"
    by (simp_all add: ex_usersEntry_def ex_conversationsEntry_def ex_projectsMalformed_def)
  have p: "parsed ex_projectsMalformed = Inl (Error ''Unexpected token b in JSON at position 1'')"
    "parsed ex_usersEntry = Inr (JArray [JObject [(''uuid'', JString ''b'')]])"
    "parsed ex_conversationsEntry = Inr (JArray [])"
    by (simp_all add: ex_usersEntry_def ex_conversationsEntry_def ex_projectsMalformed_def)
  have "loadArchive [ex_usersEntry, ex_conversationsEntry, ex_projectsMalformed]
        = Inl (Error ''Unexpected token b in JSON at position 1'')"
    by (simp add: loadArchive_def scanEntry_def d p ex_names)
  then show ?thesis
    by (simp add: processZipFile_def caughtMessage_def p ex_names) (simp add: ex_loaded_def)
qed

text \<open>
  C8, as the code has it. When no entry is read as \<^verbatim>\<open>users.json\<close>, or none as
  \<^verbatim>\<open>conversations.json\<close> (entries are matched by the lower-cased last path segment,
  directories are skipped), and every entry the loader reads parses, the load fails
  with the one error that names both required files, and the users, conversations,
  projects and \<open>dataLoaded\<close> of the state stay as they were.
\<close>

theorem C8_missing_required_file:
  assumes "list_all readable files"
    and "entriesNamed ''users.json'' files = [] \<or> entriesNamed ''conversations.json'' files = []"
  shows "processZipFile st (Inr files) =
         st \<lparr> loading := False,
              st_error := Some ''Zip must contain users.json and conversations.json'' \<rparr>"
proof -
  from assms(2) have "\<not> truthy (lastNamed ''users.json'' JNull files)
      \<or> \<not> truthy (lastNamed ''conversations.json'' JNull files)"
    by (auto simp: lastNamed_def)
  then have "loadArchive files =
      Inl (Error ''Zip must contain users.json and conversations.json'')"
    by (simp add: loadArchive_readable [OF assms(1)])
  then show ?thesis by (simp add: processZipFile_def caughtMessage_def)
qed

text \<open>The archive with a directory, \<^verbatim>\<open>users.json\<close> and \<^verbatim>\<open>projects.json\<close>, and no
  \<^verbatim>\<open>conversations.json\<close>.\<close>

theorem C8_missing_required_file_witness:
  "list_all readable [ex_dirEntry, ex_usersEntry, ex_projectsObject]
   \<and> entriesNamed ''conversations.json'' [ex_dirEntry, ex_usersEntry, ex_projectsObject] = []
   \<and> processZipFile ex_loaded (Inr [ex_dirEntry, ex_usersEntry, ex_projectsObject])
       = ex_loaded \<lparr> loading := False,
           st_error := Some ''Zip must contain users.json and conversations.json'' \<rparr>"
proof -
  let ?F = "[ex_dirEntry, ex_usersEntry, ex_projectsObject]"
  have d: "dir ex_dirEntry" "\<not> dir ex_usersEntry" "\<not> dir ex_projectsObject"
    by (simp_all add: ex_dirEntry_def ex_usersEntry_def ex_projectsObject_def)
  have r: "list_all readable ?F"
    by (simp add: readable_def isRead_def d ex_names)
      (simp add: ex_usersEntry_def ex_projectsObject_def)
  have n: "entriesNamed ''conversations.json'' ?F = []"
    by (simp add: entriesNamed_def d ex_names)
  then have "entriesNamed ''users.json'' ?F = [] \<or> entriesNamed ''conversations.json'' ?F = []"
    by simp
  from C8_missing_required_file [OF r this, of ex_loaded] r n show ?thesis by simp
qed

text \<open>C8 as stated fails on the archive that holds only a \<^verbatim>\<open>users.json\<close> that is not
  JSON: \<^verbatim>\<open>conversations.json\<close> is absent, and the error shown is the parser's, which
  names neither file.\<close>

theorem C8_counterexample:
  "entriesNamed ''conversations.json'' [ex_usersMalformed] = []
   \<and> st_error (processZipFile ex_loaded (Inr [ex_usersMalformed]))
       = Some ''Unexpected end of JSON input''
   \<and> st_error (processZipFile ex_loaded (Inr [ex_usersMalformed]))
       \<noteq> Some ''Zip must contain users.json and conversations.json''"
proof -
  have d: "\<not> dir ex_usersMalformed"
    and p: "parsed ex_usersMalformed = Inl (Error ''Unexpected end of JSON input'')"
    by (simp_all add: ex_usersMalformed_def)
  have "loadArchive [ex_usersMalformed] = Inl (Error ''Unexpected end of JSON input'')"
    by (simp add: loadArchive_def scanEntry_def d p ex_names)
  then show ?thesis
    by (simp add: processZipFile_def caughtMessage_def entriesNamed_def d ex_names)
qed

text \<open>Whenever an entry the loader reads fails to parse, the load fails with what the
  read of such an entry threw, and the data of the state stay as they were.\<close>

lemma parse_failure_fatal:
  assumes "\<not> list_all readable files"
  shows "\<exists>e t. e \<in> set files \<and> isRead e \<and> parsed e = Inl t
           \<and> processZipFile st (Inr files) =
               st \<lparr> loading := False, st_error := Some (caughtMessage t) \<rparr>"
proof -
  from scanEntries_unreadable [OF assms, of "(JNull, JNull, JArray [])"]
  obtain e t where e: "e \<in> set files" "isRead e" "parsed e = Inl t"
    and s: "scanEntries (JNull, JNull, JArray []) files = Inl t"
    by blast
  from s have "loadArchive files = Inl t" by (simp add: loadArchive_def)
  then have "processZipFile st (Inr files) =
      st \<lparr> loading := False, st_error := Some (caughtMessage t) \<rparr>"
    by (simp add: processZipFile_def)
  with e show ?thesis by blast
qed

section \<open>Tool tallies\<close>

text \<open>
  C10 at a tool named \<^verbatim>\<open>constructor\<close>. The claim asks for a count of at least 1 under
  every key. The read \<^verbatim>\<open>counts["constructor"]\<close> on the fresh table yields the
  inherited \<^verbatim>\<open>Object\<close> function, so the value stored is that function's source
  text followed by \<^verbatim>\<open>1\<close>, a string and not a count, in all three derivations.
\<close>

theorem C10_inherited_tool_name:
  "calculateToolUsage [ex_toolConv] = [\<lparr> t_name = ''constructor'', t_count = Text ''constructor'' 1 \<rparr>]
   \<and> map toolsUsed (calculateConversationDetails noDate [ex_toolConv] [ex_userA])
       = [[(''constructor'', Text ''constructor'' 1)]]
   \<and> map toolUses (calculateStats noDate [ex_userA] [ex_toolConv])
       = [[(''constructor'', Text ''constructor'' 1)]]"
  by code_simp

section \<open>Laws of calculateConversationDetails\<close>

text \<open>
  C7, as the code has it. The list \<open>calculateConversationDetails\<close> returns holds exactly
  the details of the conversations, one each. The detail of a conversation has the name
  \<^verbatim>\<open>Untitled\<close> when the conversation's name is the empty string and the conversation's
  own name otherwise, so its name is \<^verbatim>\<open>Untitled\<close> exactly when the conversation's name is
  empty or is itself \<^verbatim>\<open>Untitled\<close>. Its \<open>userName\<close> is \<^verbatim>\<open>Unknown\<close> when no user has the
  conversation's account uuid, and otherwise the \<open>full_name\<close> of the first such user.
\<close>

theorem C7_fallbacks:
  "mset (calculateConversationDetails getTime conversations users)
     = mset (map (conversationDetail users) conversations)
   \<and> cd_name (conversationDetail users conv)
     = (if conv_name conv = [] then ''Untitled'' else conv_name conv)
   \<and> userName (conversationDetail users conv)
     = (if account_uuid conv \<in> set (map u_uuid users)
        then full_name (hd (filter (\<lambda>u. u_uuid u = account_uuid conv) users))
        else ''Unknown'')
   \<and> (cd_name (conversationDetail users conv) = ''Untitled'')
     = (conv_name conv = [] \<or> conv_name conv = ''Untitled'')"
proof -
  have f: "find (\<lambda>u. u_uuid u = k) users =
      (if k \<in> set (map u_uuid users) then Some (hd (filter (\<lambda>u. u_uuid u = k) users)) else None)" for k
    by (induction users) auto
  show ?thesis
    by (simp add: calculateConversationDetails_def mset_Array_sort conversationDetail_def
        getUserName_def Let_def f)
qed

text \<open>C7 as stated fails for a conversation that is named \<^verbatim>\<open>Untitled\<close> and belongs to a
  user whose name is \<^verbatim>\<open>Unknown\<close>: both fallback texts appear though the name is not
  empty and the account resolves.\<close>

theorem C7_counterexample:
  "conv_name ex_conv3 \<noteq> []
   \<and> account_uuid ex_conv3 = u_uuid ex_userUnknown
   \<and> map cd_name (calculateConversationDetails noDate [ex_conv3] [ex_userUnknown]) = [''Untitled'']
   \<and> map userName (calculateConversationDetails noDate [ex_conv3] [ex_userUnknown]) = [''Unknown'']"
  by code_simp


section \<open>Totality and empty inputs\<close>

lemma present_message_simps:
  "contentOf (presentMessage m) = contentOf m"
  "textLength (presentMessage m) = textLength m"
  "sender (presentMessage m) = sender m"
  by (simp_all add: presentMessage_def contentOf_def textLength_def split: option.splits)

lemma present_conversation_simps:
  "account_uuid (presentConversation c) = account_uuid c"
  "created_at (presentConversation c) = created_at c"
  "updated_at (presentConversation c) = updated_at c"
  "conv_name (presentConversation c) = conv_name c"
  "conv_uuid (presentConversation c) = conv_uuid c"
  "chat_messages (presentConversation c) = map presentMessage (chat_messages c)"
  by (simp_all add: presentConversation_def)

lemma sumChars_present: "sumChars (map presentMessage ms) = sumChars ms"
proof -
  have "foldl (\<lambda>sum m. sum + textLength m) a (map presentMessage ms)
      = foldl (\<lambda>sum m. sum + textLength m) a ms" for a
    by (induction ms arbitrary: a) (simp_all add: present_message_simps)
  then show ?thesis by (simp add: sumChars_def)
qed

lemma filter_sender_present:
  "filter (\<lambda>m. sender m = s) (map presentMessage ms)
   = map presentMessage (filter (\<lambda>m. sender m = s) ms)"
  by (induction ms) (simp_all add: present_message_simps)

lemma scanMessages_present: "scanMessages (map presentMessage ms) = scanMessages ms"
proof -
  have "foldl (\<lambda>acc msg. foldl scanItem acc (contentOf msg)) a (map presentMessage ms)
      = foldl (\<lambda>acc msg. foldl scanItem acc (contentOf msg)) a ms" for a
    by (induction ms arbitrary: a) (simp_all add: present_message_simps)
  then show ?thesis by (simp add: scanMessages_def)
qed

lemma filter_account_present:
  "filter (\<lambda>c. account_uuid c = k) (map presentConversation cs)
   = map presentConversation (filter (\<lambda>c. account_uuid c = k) cs)"
  by (induction cs) (simp_all add: present_conversation_simps)

lemma messages_present:
  "concat (map chat_messages (map presentConversation cs))
   = map presentMessage (concat (map chat_messages cs))"
  by (induction cs) (simp_all add: present_conversation_simps)

lemma messages_present_comp:
  "concat (map (chat_messages \<circ> presentConversation) cs)
   = map presentMessage (concat (map chat_messages cs))"
  by (induction cs) (simp_all add: present_conversation_simps)

lemma later_present:
  "later getTime (presentConversation a) (presentConversation b)
   = presentConversation (later getTime a b)"
  by (simp add: later_def present_conversation_simps split: option.splits)

lemma lastActiveOf_present:
  "lastActiveOf getTime (map presentConversation cs) = lastActiveOf getTime cs"
proof -
  have "foldl (later getTime) (presentConversation c) (map presentConversation ds)
      = presentConversation (foldl (later getTime) c ds)" for c ds
    by (induction ds arbitrary: c) (simp_all add: later_present)
  then show ?thesis
    by (cases cs) (simp_all add: lastActiveOf_def present_conversation_simps)
qed

lemma userStats_present:
  "userStats getTime (map presentConversation cs) = userStats getTime cs"
  by (rule ext)
    (simp add: userStats_def Let_def filter_account_present messages_present_comp
      filter_sender_present sumChars_present scanMessages_present lastActiveOf_present)

lemma dayMap_present:
  "foldl dayStep m (map presentConversation cs) = foldl dayStep m cs"
proof (induction cs arbitrary: m)
  case Nil
  then show ?case by simp
next
  case (Cons c cs)
  have "dayStep m (presentConversation c) = dayStep m c"
    by (simp add: dayStep_def Let_def present_conversation_simps split: option.splits)
  with Cons show ?case by simp
qed

lemma countTools_present: "countTools (map presentConversation cs) = countTools cs"
proof -
  have m: "foldl (\<lambda>counts msg. foldl tallyItem counts (contentOf msg)) a (map presentMessage ms)
      = foldl (\<lambda>counts msg. foldl tallyItem counts (contentOf msg)) a ms" for a ms
    by (induction ms arbitrary: a) (simp_all add: present_message_simps)
  have "foldl (\<lambda>counts conv. foldl (\<lambda>counts msg. foldl tallyItem counts (contentOf msg))
                counts (chat_messages conv)) a (map presentConversation cs)
      = foldl (\<lambda>counts conv. foldl (\<lambda>counts msg. foldl tallyItem counts (contentOf msg))
                counts (chat_messages conv)) a cs" for a
    by (induction cs arbitrary: a) (simp_all add: present_conversation_simps m)
  then show ?thesis by (simp add: countTools_def)
qed

lemma conversationDetail_present:
  "conversationDetail users (presentConversation c) = conversationDetail users c"
  by (simp add: conversationDetail_def Let_def present_conversation_simps
      filter_sender_present sumChars_present scanMessages_present)

text \<open>
  C2. The four derivations are total functions of their inputs: no operation they
  perform can throw on records of the modelled shapes, so the model has no error value,
  and each returns a list for every input (one entry per user, one per conversation).
  Absent \<^verbatim>\<open>text\<close> and absent \<^verbatim>\<open>content\<close> are tolerated: each derivation returns on any
  input what it returns on the same input with those fields present and empty. On an
  empty users list \<open>calculateStats\<close> returns the empty list; on an empty conversations
  list \<open>calculateDailyActivity\<close>, \<open>calculateToolUsage\<close> and
  \<open>calculateConversationDetails\<close> return the empty list.
\<close>

theorem C2_total_and_empty:
  "calculateStats getTime [] conversations = []
   \<and> calculateDailyActivity localeCompare [] = []
   \<and> calculateToolUsage [] = []
   \<and> calculateConversationDetails getTime [] users = []
   \<and> length (calculateStats getTime users conversations) = length users
   \<and> length (calculateConversationDetails getTime conversations users) = length conversations
   \<and> calculateStats getTime users (map presentConversation conversations)
       = calculateStats getTime users conversations
   \<and> calculateDailyActivity localeCompare (map presentConversation conversations)
       = calculateDailyActivity localeCompare conversations
   \<and> calculateToolUsage (map presentConversation conversations)
       = calculateToolUsage conversations
   \<and> calculateConversationDetails getTime (map presentConversation conversations) users
       = calculateConversationDetails getTime conversations users"
proof -
  have e: "calculateStats getTime [] conversations = []"
    "calculateDailyActivity localeCompare [] = []"
    "calculateToolUsage [] = []"
    "calculateConversationDetails getTime [] users = []"
    by (simp_all add: calculateStats_def calculateDailyActivity_def calculateToolUsage_def
        calculateConversationDetails_def Array_sort_def Object_entries_def countTools_def)
  have l: "length (calculateStats getTime users conversations) = length users"
    "length (calculateConversationDetails getTime conversations users) = length conversations"
    by (simp_all add: calculateStats_def calculateConversationDetails_def length_Array_sort)
  have p1: "calculateStats getTime users (map presentConversation conversations)
       = calculateStats getTime users conversations"
    by (simp add: calculateStats_def userStats_present)
  have p2: "calculateDailyActivity localeCompare (map presentConversation conversations)
       = calculateDailyActivity localeCompare conversations"
    by (simp add: calculateDailyActivity_def dayMap_present)
  have p3: "calculateToolUsage (map presentConversation conversations)
       = calculateToolUsage conversations"
    by (simp add: calculateToolUsage_def countTools_present)
  have p4: "calculateConversationDetails getTime (map presentConversation conversations) users
       = calculateConversationDetails getTime conversations users"
    by (simp add: calculateConversationDetails_def conversationDetail_present comp_def)
  from e l p1 p2 p3 p4 show ?thesis by simp
qed

section \<open>Laws of calculateDailyActivity\<close>

lemma map_of_put: "map_of (put k v obj) = (map_of obj)(k \<mapsto> v)"
  by (induction obj) (auto simp: fun_eq_iff)

lemma keys_put: "set (map fst (put k v obj)) = insert k (set (map fst obj))"
  by (induction obj) auto

lemma distinct_put: "distinct (map fst obj) \<Longrightarrow> distinct (map fst (put k v obj))"
  by (induction obj) (auto simp: keys_put [simplified])

lemma mset_Object_entries: "mset (Object_entries obj) = mset obj"
  by (simp add: Object_entries_def)

lemma inherited_not_10: "k \<in> set Object_prototype_keys \<Longrightarrow> length k \<noteq> 10"
  by (auto simp: Object_prototype_keys_def)

lemma filter_key_empty: "k \<notin> set (map f cs) \<Longrightarrow> filter (\<lambda>c. f c = k) cs = []"
  by (induction cs) auto

lemma dayMap_invariant:
  assumes "list_all (\<lambda>c. 10 \<le> length (created_at c)) cs"
  shows "distinct (map fst (foldl dayStep [] cs))
       \<and> (\<forall>k. map_of (foldl dayStep [] cs) k =
            (if k \<in> set (map (\<lambda>c. take 10 (created_at c)) cs)
             then Some \<lparr> d_conversations = length (filter (\<lambda>c. take 10 (created_at c) = k) cs),
                         d_messages = sum_list (map (\<lambda>c. length (chat_messages c))
                                        (filter (\<lambda>c. take 10 (created_at c) = k) cs)) \<rparr>
             else None))"
  using assms
proof (induction cs rule: rev_induct)
  case Nil
  then show ?case by simp
next
  case (snoc c cs)
  let ?M = "foldl dayStep [] cs"
  let ?day = "take 10 (created_at c)"
  from snoc.prems have len: "10 \<le> length (created_at c)"
    and cs: "list_all (\<lambda>c. 10 \<le> length (created_at c)) cs" by simp_all
  from snoc.IH [OF cs] have d: "distinct (map fst ?M)"
    and m: "\<And>k. map_of ?M k =
            (if k \<in> set (map (\<lambda>c. take 10 (created_at c)) cs)
             then Some \<lparr> d_conversations = length (filter (\<lambda>c. take 10 (created_at c) = k) cs),
                         d_messages = sum_list (map (\<lambda>c. length (chat_messages c))
                                        (filter (\<lambda>c. take 10 (created_at c) = k) cs)) \<rparr>
             else None)"
    by blast+
  from len have "length ?day = 10" by simp
  then have ni: "?day \<notin> set Object_prototype_keys" using inherited_not_10 by blast
  have step: "foldl dayStep [] (cs @ [c]) = dayStep ?M c" by simp
  show ?case
  proof (cases "?day \<in> set (map (\<lambda>c. take 10 (created_at c)) cs)")
    case True
    then have eq: "dayStep ?M c = put ?day
        \<lparr> d_conversations = length (filter (\<lambda>c. take 10 (created_at c) = ?day) cs) + 1,
          d_messages = sum_list (map (\<lambda>c. length (chat_messages c))
                         (filter (\<lambda>c. take 10 (created_at c) = ?day) cs)) + length (chat_messages c) \<rparr> ?M"
      by (simp add: dayStep_def Let_def m)
    show ?thesis
      unfolding step eq using d True by (auto simp: distinct_put map_of_put m)
  next
    case False
    then have eq: "dayStep ?M c = put ?day
        \<lparr> d_conversations = 1, d_messages = length (chat_messages c) \<rparr> ?M"
      using ni by (simp add: dayStep_def Let_def m)
    have z: "filter (\<lambda>c. take 10 (created_at c) = ?day) cs = []"
      using False by (rule filter_key_empty)
    show ?thesis
      unfolding step eq using d False by (auto simp: distinct_put map_of_put m z)
  qed
qed



lemma keeps_before_localeCompare:
  "keeps_before (\<lambda>a b. Some (localeCompare (fst a) (fst b))) x y
   = (localeCompare (fst x) (fst y) \<le> 0)"
  by (simp add: keeps_before_def)

lemma set_Object_entries: "set (Object_entries obj) = set obj"
  by (auto simp: Object_entries_def)

lemma insert_by_sorted_wrt_on:
  assumes trans: "\<And>x y z. x \<in> A \<Longrightarrow> y \<in> A \<Longrightarrow> z \<in> A \<Longrightarrow> R x y \<Longrightarrow> R y z \<Longrightarrow> R x z"
    and total: "\<And>x y. x \<in> A \<Longrightarrow> y \<in> A \<Longrightarrow> R x y \<or> R y x"
    and x: "x \<in> A"
  shows "set ys \<subseteq> A \<Longrightarrow> (\<And>y. y \<in> set ys \<Longrightarrow> keeps_before cmp x y = R x y)
         \<Longrightarrow> sorted_wrt R ys \<Longrightarrow> sorted_wrt R (insert_by cmp x ys)"
proof (induction ys)
  case Nil
  then show ?case by simp
next
  case (Cons y ys)
  have y: "y \<in> A" and ys: "set ys \<subseteq> A" using Cons.prems(1) by simp_all
  have kb: "keeps_before cmp x y = R x y" using Cons.prems(2) by simp
  show ?case
  proof (cases "keeps_before cmp x y")
    case True
    then have "R x y" using kb by simp
    then have "\<forall>z \<in> set ys. R x z"
      using Cons.prems(3) trans [OF x y] ys by auto
    with True \<open>R x y\<close> Cons.prems(3) show ?thesis by simp
  next
    case False
    then have "R y x" using kb total [OF x y] by blast
    moreover have "sorted_wrt R (insert_by cmp x ys)"
      using Cons.IH [OF ys] Cons.prems by simp
    ultimately show ?thesis using False Cons.prems(3) by (simp add: set_insert_by)
  qed
qed

lemma Array_sort_sorted_wrt_on:
  assumes trans: "\<And>x y z. x \<in> A \<Longrightarrow> y \<in> A \<Longrightarrow> z \<in> A \<Longrightarrow> R x y \<Longrightarrow> R y z \<Longrightarrow> R x z"
    and total: "\<And>x y. x \<in> A \<Longrightarrow> y \<in> A \<Longrightarrow> R x y \<or> R y x"
  shows "set xs \<subseteq> A \<Longrightarrow>
         (\<And>x y. x \<in> set xs \<Longrightarrow> y \<in> set xs \<Longrightarrow> keeps_before cmp x y = R x y)
         \<Longrightarrow> sorted_wrt R (Array_sort cmp xs)"
proof (induction xs)
  case Nil
  then show ?case by (simp add: Array_sort_def)
next
  case (Cons x xs)
  have x: "x \<in> A" and xs: "set xs \<subseteq> A" using Cons.prems(1) by simp_all
  show ?case
    unfolding Array_sort_Cons
  proof (rule insert_by_sorted_wrt_on [where R = R and A = A])
    fix a b c
    assume "a \<in> A" "b \<in> A" "c \<in> A" "R a b" "R b c"
    then show "R a c" by (rule trans)
  next
    fix a b
    assume "a \<in> A" "b \<in> A"
    then show "R a b \<or> R b a" by (rule total)
  next
    show "x \<in> A" by (rule x)
  next
    show "set (Array_sort cmp xs) \<subseteq> A" using xs by (simp add: set_Array_sort)
  next
    fix y
    assume "y \<in> set (Array_sort cmp xs)"
    then show "keeps_before cmp x y = R x y"
      using Cons.prems(2) by (simp add: set_Array_sort)
  next
    show "sorted_wrt R (Array_sort cmp xs)" using Cons.IH [OF xs] Cons.prems(2) by simp
  qed
qed

lemma consistentOn_total:
  "consistentOn lc ks \<Longrightarrow> a \<in> set ks \<Longrightarrow> b \<in> set ks \<Longrightarrow> lc a b \<le> 0 \<or> lc b a \<le> 0"
  unfolding consistentOn_def list_all_iff by blast

lemma consistentOn_trans:
  "consistentOn lc ks \<Longrightarrow> a \<in> set ks \<Longrightarrow> b \<in> set ks \<Longrightarrow> c \<in> set ks \<Longrightarrow>
   lc a b \<le> 0 \<Longrightarrow> lc b c \<le> 0 \<Longrightarrow> lc a c \<le> 0"
  unfolding consistentOn_def list_all_iff by blast

lemma consistentOn_codeUnitCompare: "consistentOn codeUnitCompare ks"
  by (auto simp: consistentOn_def codeUnitCompare_def list_all_iff)

text \<open>
  C6, as the code has it. When every \<open>created_at\<close> has at least 10 characters,
  \<open>calculateDailyActivity\<close> returns exactly one entry for each distinct 10-character
  prefix of a conversation's \<open>created_at\<close>; the entry's conversation count is the number
  of conversations whose \<open>created_at\<close> starts with that prefix and its message count is
  the sum of the lengths of their \<open>chat_messages\<close>. The entries are sorted by
  \<^verbatim>\<open>localeCompare\<close> on the date: whenever \<^verbatim>\<open>localeCompare\<close> is total and transitive on
  the prefixes, each entry's date compares as not after every later entry's date. They
  are sorted strictly ascending in the lexical order whenever \<^verbatim>\<open>localeCompare\<close> orders
  the prefixes as the comparison by code units does (as it does for ISO date prefixes).
\<close>

theorem C6_daily_activity:
  assumes "list_all (\<lambda>c. 10 \<le> length (created_at c)) conversations"
  shows "set (map da_date (calculateDailyActivity localeCompare conversations))
           = set (map (\<lambda>c. take 10 (created_at c)) conversations)
       \<and> distinct (map da_date (calculateDailyActivity localeCompare conversations))
       \<and> list_all (\<lambda>e.
            da_conversations e
              = length (filter (\<lambda>c. startsWith (created_at c) (da_date e)) conversations)
            \<and> da_messages e
              = sum_list (map (\<lambda>c. length (chat_messages c))
                  (filter (\<lambda>c. startsWith (created_at c) (da_date e)) conversations)))
          (calculateDailyActivity localeCompare conversations)
       \<and> (consistentOn localeCompare (map (\<lambda>c. take 10 (created_at c)) conversations)
            \<longrightarrow> sorted_wrt (\<lambda>a b. localeCompare a b \<le> 0)
                  (map da_date (calculateDailyActivity localeCompare conversations)))
       \<and> (ordersByCodeUnits localeCompare (map (\<lambda>c. take 10 (created_at c)) conversations)
            \<longrightarrow> sorted_wrt (<)
                  (map da_date (calculateDailyActivity localeCompare conversations)))"
proof -
  let ?key = "\<lambda>c. take 10 (created_at c)"
  let ?M = "foldl dayStep [] conversations"
  let ?cmp = "\<lambda>a b. Some (localeCompare (fst a) (fst b))"
  let ?L = "Array_sort ?cmp (Object_entries ?M)"
  let ?mk = "\<lambda>p. \<lparr> da_date = fst p, da_conversations = d_conversations (snd p),
                 da_messages = d_messages (snd p) \<rparr>"
  have out: "calculateDailyActivity localeCompare conversations = map ?mk ?L"
    by (simp add: calculateDailyActivity_def)
  from dayMap_invariant [OF assms(1)] have dM: "distinct (map fst ?M)"
    and mM: "\<And>k. map_of ?M k =
            (if k \<in> set (map ?key conversations)
             then Some \<lparr> d_conversations = length (filter (\<lambda>c. ?key c = k) conversations),
                         d_messages = sum_list (map (\<lambda>c. length (chat_messages c))
                                        (filter (\<lambda>c. ?key c = k) conversations)) \<rparr>
             else None)"
    by blast+
  have msL: "mset ?L = mset ?M"
    by (simp add: mset_Array_sort mset_Object_entries)
  have setL: "set ?L = set ?M" by (simp add: set_Array_sort set_Object_entries)
  have "mset (map fst ?L) = mset (map fst ?M)" by (simp add: msL)
  from mset_eq_imp_distinct_iff [OF this] dM have dL: "distinct (map fst ?L)" by simp
  have keysM: "set (map fst ?M) = set (map ?key conversations)"
  proof -
    have "k \<in> fst ` set ?M \<longleftrightarrow> map_of ?M k \<noteq> None" for k
      by (simp add: map_of_eq_None_iff)
    then have "k \<in> fst ` set ?M \<longleftrightarrow> k \<in> set (map ?key conversations)" for k
      using mM [of k] by simp
    then show ?thesis by auto
  qed
  have dates: "map da_date (map ?mk ?L) = map fst ?L" by (simp add: comp_def)
  have c1: "set (map da_date (map ?mk ?L)) = set (map ?key conversations)"
    unfolding dates using setL keysM by simp
  have keyIn: "fst x \<in> set (map ?key conversations)" if "x \<in> set (Object_entries ?M)" for x
  proof -
    from that have "x \<in> set ?M" by (simp add: set_Object_entries)
    then have "fst x \<in> set (map fst ?M)" by simp
    then show ?thesis unfolding keysM .
  qed
  have c3: "sorted_wrt (<) (map fst ?L)"
    if h: "ordersByCodeUnits localeCompare (map ?key conversations)"
  proof -
    have agree: "(localeCompare a b \<le> 0) = (a \<le> b)"
      if "a \<in> set (map ?key conversations)" "b \<in> set (map ?key conversations)" for a b
      using h that unfolding ordersByCodeUnits_def list_all_iff by blast
    have "sorted_wrt (\<lambda>a b. fst a \<le> fst b) ?L"
    proof (rule Array_sort_sorted_wrt)
      fix x y z :: "string \<times> DayTotals"
      assume "fst x \<le> fst y" "fst y \<le> fst z"
      then show "fst x \<le> fst z" by (rule order_trans)
    next
      fix x y :: "string \<times> DayTotals"
      show "fst x \<le> fst y \<or> fst y \<le> fst x" by (rule linear)
    next
      fix x y
      assume "x \<in> set (Object_entries ?M)" "y \<in> set (Object_entries ?M)"
      then have "fst x \<in> set (map ?key conversations)" "fst y \<in> set (map ?key conversations)"
        by (simp_all only: keyIn)
      then show "keeps_before ?cmp x y = (fst x \<le> fst y)"
        by (simp add: keeps_before_localeCompare agree)
    qed
    then have "sorted (map fst ?L)" by (simp add: sorted_wrt_map)
    with dL show ?thesis by (simp add: strict_sorted_iff)
  qed
  have c5: "sorted_wrt (\<lambda>a b. localeCompare a b \<le> 0) (map fst ?L)"
    if h: "consistentOn localeCompare (map ?key conversations)"
  proof -
    have "sorted_wrt (\<lambda>a b. localeCompare (fst a) (fst b) \<le> 0) ?L"
    proof (rule Array_sort_sorted_wrt_on
        [where A = "{p. fst p \<in> set (map ?key conversations)}"])
      fix x y z :: "string \<times> DayTotals"
      assume "x \<in> {p. fst p \<in> set (map ?key conversations)}"
        "y \<in> {p. fst p \<in> set (map ?key conversations)}"
        "z \<in> {p. fst p \<in> set (map ?key conversations)}"
        "localeCompare (fst x) (fst y) \<le> 0" "localeCompare (fst y) (fst z) \<le> 0"
      then show "localeCompare (fst x) (fst z) \<le> 0"
        using consistentOn_trans [OF h, of "fst x" "fst y" "fst z"] by simp
    next
      fix x y :: "string \<times> DayTotals"
      assume "x \<in> {p. fst p \<in> set (map ?key conversations)}"
        "y \<in> {p. fst p \<in> set (map ?key conversations)}"
      then show "localeCompare (fst x) (fst y) \<le> 0 \<or> localeCompare (fst y) (fst x) \<le> 0"
        using consistentOn_total [OF h, of "fst x" "fst y"] by simp
    next
      show "set (Object_entries ?M) \<subseteq> {p. fst p \<in> set (map ?key conversations)}"
        using keyIn by blast
    next
      fix x y
      show "keeps_before ?cmp x y = (localeCompare (fst x) (fst y) \<le> 0)"
        by (rule keeps_before_localeCompare)
    qed
    then show ?thesis by (simp add: sorted_wrt_map)
  qed
  have c4: "da_conversations (?mk p)
              = length (filter (\<lambda>c. startsWith (created_at c) (da_date (?mk p))) conversations)
          \<and> da_messages (?mk p)
              = sum_list (map (\<lambda>c. length (chat_messages c))
                  (filter (\<lambda>c. startsWith (created_at c) (da_date (?mk p))) conversations))"
    if "p \<in> set ?L" for p
  proof -
    from that setL have pM: "(fst p, snd p) \<in> set ?M" by simp
    with dM have mp: "map_of ?M (fst p) = Some (snd p)" by (rule map_of_is_SomeI)
    with mM [of "fst p"] have k: "fst p \<in> set (map ?key conversations)"
      and v: "snd p = \<lparr> d_conversations = length (filter (\<lambda>c. ?key c = fst p) conversations),
                         d_messages = sum_list (map (\<lambda>c. length (chat_messages c))
                                        (filter (\<lambda>c. ?key c = fst p) conversations)) \<rparr>"
      by (auto split: if_splits)
    from k obtain c0 where "c0 \<in> set conversations" "fst p = ?key c0" by auto
    with assms(1) have l: "length (fst p) = 10" by (auto simp: list_all_iff)
    have "filter (\<lambda>c. startsWith (created_at c) (fst p)) conversations
        = filter (\<lambda>c. ?key c = fst p) conversations"
      by (simp add: startsWith_def l)
    with v show ?thesis by simp
  qed
  show ?thesis
    unfolding out
    using c1 dL c3 c4 c5 by (simp add: list_all_iff comp_def)
qed

lemma ordersByCodeUnits_codeUnitCompare: "ordersByCodeUnits codeUnitCompare ks"
  by (auto simp: ordersByCodeUnits_def codeUnitCompare_def list_all_iff)

text \<open>The three example conversations, created on two days, under the comparison by
  code units.\<close>

theorem C6_daily_activity_witness:
  "list_all (\<lambda>c. 10 \<le> length (created_at c)) ex_conversations
   \<and> consistentOn codeUnitCompare (map (\<lambda>c. take 10 (created_at c)) ex_conversations)
   \<and> ordersByCodeUnits codeUnitCompare (map (\<lambda>c. take 10 (created_at c)) ex_conversations)
   \<and> set (map da_date (calculateDailyActivity codeUnitCompare ex_conversations))
       = set (map (\<lambda>c. take 10 (created_at c)) ex_conversations)
   \<and> distinct (map da_date (calculateDailyActivity codeUnitCompare ex_conversations))
   \<and> list_all (\<lambda>e.
        da_conversations e
          = length (filter (\<lambda>c. startsWith (created_at c) (da_date e)) ex_conversations)
        \<and> da_messages e
          = sum_list (map (\<lambda>c. length (chat_messages c))
              (filter (\<lambda>c. startsWith (created_at c) (da_date e)) ex_conversations)))
      (calculateDailyActivity codeUnitCompare ex_conversations)
   \<and> sorted_wrt (\<lambda>a b. codeUnitCompare a b \<le> 0)
        (map da_date (calculateDailyActivity codeUnitCompare ex_conversations))
   \<and> sorted_wrt (<) (map da_date (calculateDailyActivity codeUnitCompare ex_conversations))
   \<and> calculateDailyActivity codeUnitCompare ex_conversations
       = [\<lparr> da_date = ''2024-01-01'', da_conversations = 2, da_messages = 2 \<rparr>,
          \<lparr> da_date = ''2024-01-02'', da_conversations = 1, da_messages = 3 \<rparr>]"
proof -
  have h1: "list_all (\<lambda>c. 10 \<le> length (created_at c)) ex_conversations"
    by (simp add: ex_conversations_def ex_conv1_def ex_conv2_def ex_conv3_def)
  have h2: "ordersByCodeUnits codeUnitCompare
      (map (\<lambda>c. take 10 (created_at c)) ex_conversations)"
    by (rule ordersByCodeUnits_codeUnitCompare)
  have h3: "consistentOn codeUnitCompare
      (map (\<lambda>c. take 10 (created_at c)) ex_conversations)"
    by (rule consistentOn_codeUnitCompare)
  have v: "calculateDailyActivity codeUnitCompare ex_conversations
       = [\<lparr> da_date = ''2024-01-01'', da_conversations = 2, da_messages = 2 \<rparr>,
          \<lparr> da_date = ''2024-01-02'', da_conversations = 1, da_messages = 3 \<rparr>]"
    by code_simp
  from C6_daily_activity [OF h1, of codeUnitCompare] h1 h2 h3 v show ?thesis by blast
qed

text \<open>
  C6 as stated fails in two ways. When a timestamp is shorter than 10 characters, the
  entry for \<^verbatim>\<open>2024-01\<close> counts one conversation, while the \<open>created_at\<close> of both
  conversations starts with \<^verbatim>\<open>2024-01\<close>, and its key is not a 10-character prefix.
  When \<^verbatim>\<open>localeCompare\<close> ignores case, the entry for \<^verbatim>\<open>apr 01 202\<close> comes before the
  entry for \<^verbatim>\<open>Jan 05 202\<close>, which is lexically smaller: the order of the result is
  that of \<^verbatim>\<open>localeCompare\<close>, not the lexical one.
\<close>

theorem C6_counterexample:
  "calculateDailyActivity codeUnitCompare [ex_conv1, ex_monthConv]
     = [\<lparr> da_date = ''2024-01'', da_conversations = 1, da_messages = 0 \<rparr>,
        \<lparr> da_date = ''2024-01-01'', da_conversations = 1, da_messages = 2 \<rparr>]
   \<and> length (filter (\<lambda>c. startsWith (created_at c) ''2024-01'') [ex_conv1, ex_monthConv]) = 2
   \<and> list_all (\<lambda>c. 10 \<le> length (created_at c)) [ex_janConv, ex_aprConv]
   \<and> map da_date (calculateDailyActivity caseInsensitiveCompare [ex_janConv, ex_aprConv])
       = [''apr 01 202'', ''Jan 05 202'']
   \<and> ''Jan 05 202'' < ''apr 01 202''
   \<and> \<not> sorted_wrt (<)
        (map da_date (calculateDailyActivity caseInsensitiveCompare [ex_janConv, ex_aprConv]))"
  by code_simp

section \<open>Tool tallies for every input\<close>

text \<open>In all three derivations every key of a tally table is a non-empty tool name, and
  under every name that is not an inherited property name the value is a count of at
  least 1.\<close>

lemma set_put: "set (put k v obj) \<subseteq> insert (k, v) (set obj)"
  by (induction obj) auto

lemma wellTallied_put:
  assumes "wellTallied obj" and "goodEntry k v"
  shows "wellTallied (put k v obj)"
  using assms set_put [of k v obj] unfolding wellTallied_def list_all_iff by fastforce

lemma wellTallied_increment:
  assumes "wellTallied obj" and "k \<noteq> []"
  shows "wellTallied (increment obj k)"
proof (cases "map_of obj k")
  case None
  then show ?thesis
    using assms by (simp add: increment_def wellTallied_put)
next
  case (Some v)
  then have "(k, v) \<in> set obj" by (rule map_of_SomeD)
  with assms(1) have v: "goodEntry k v"
    unfolding wellTallied_def list_all_iff by fastforce
  show ?thesis
  proof (cases v)
    case (Count n)
    with v Some assms show ?thesis
      by (simp add: increment_def wellTallied_put)
  next
    case (Text q j)
    with v Some assms show ?thesis
      by (simp add: increment_def wellTallied_put)
  qed
qed

lemma wellTallied_tallyItem: "wellTallied obj \<Longrightarrow> wellTallied (tallyItem obj c)"
  by (auto simp: tallyItem_def wellTallied_increment split: option.splits)

lemma wellTallied_items: "wellTallied obj \<Longrightarrow> wellTallied (foldl tallyItem obj cs)"
  by (induction cs arbitrary: obj) (simp_all add: wellTallied_tallyItem)

lemma wellTallied_scanItems: "wellTallied (snd acc) \<Longrightarrow> wellTallied (snd (foldl scanItem acc cs))"
  by (induction cs arbitrary: acc) (simp_all add: scanItem_def wellTallied_tallyItem)

lemma wellTallied_scanMessages: "wellTallied (snd (scanMessages ms))"
proof -
  have "wellTallied (snd acc) \<Longrightarrow>
      wellTallied (snd (foldl (\<lambda>acc msg. foldl scanItem acc (contentOf msg)) acc ms))" for acc
    by (induction ms arbitrary: acc) (simp_all add: wellTallied_scanItems)
  then show ?thesis by (simp add: scanMessages_def wellTallied_def)
qed

lemma wellTallied_countTools: "wellTallied (countTools cs)"
proof -
  have m: "wellTallied obj \<Longrightarrow>
      wellTallied (foldl (\<lambda>counts msg. foldl tallyItem counts (contentOf msg)) obj ms)" for obj ms
    by (induction ms arbitrary: obj) (simp_all add: wellTallied_items)
  have "wellTallied obj \<Longrightarrow>
      wellTallied (foldl (\<lambda>counts conv. foldl (\<lambda>counts msg. foldl tallyItem counts (contentOf msg))
                counts (chat_messages conv)) obj cs)" for obj
    by (induction cs arbitrary: obj) (simp_all add: m)
  then show ?thesis by (simp add: countTools_def wellTallied_def)
qed

lemma tool_tables_wellTallied:
  "wellTallied (map (\<lambda>e. (t_name e, t_count e)) (calculateToolUsage conversations))
   \<and> list_all (\<lambda>s. wellTallied (toolUses s)) (calculateStats getTime users conversations)
   \<and> list_all (\<lambda>d. wellTallied (toolsUsed d))
        (calculateConversationDetails getTime conversations users)"
proof -
  have "set (calculateToolUsage conversations)
      = (\<lambda>p. \<lparr> t_name = fst p, t_count = snd p \<rparr>) ` set (countTools conversations)"
    by (simp add: calculateToolUsage_def set_Array_sort set_Object_entries)
  then have a: "wellTallied (map (\<lambda>e. (t_name e, t_count e)) (calculateToolUsage conversations))"
    using wellTallied_countTools [of conversations]
    unfolding wellTallied_def list_all_iff by fastforce
  have b: "list_all (\<lambda>s. wellTallied (toolUses s)) (calculateStats getTime users conversations)"
    by (auto simp: list_all_iff calculateStats_def set_Array_sort userStats_def Let_def
        wellTallied_scanMessages)
  have c: "list_all (\<lambda>d. wellTallied (toolsUsed d))
        (calculateConversationDetails getTime conversations users)"
    by (auto simp: list_all_iff calculateConversationDetails_def set_Array_sort
        conversationDetail_def Let_def wellTallied_scanMessages)
  from a b c show ?thesis by simp
qed

end
